theory Spec2Isabelle
  imports Complex_Main
begin

text \<open>
  A shallow embedding of the progressive multiple-sequence aligner of \<^verbatim>\<open>alignment.cpp\<close>:
  pairwise distances, the UPGMA guide tree, profiles, their merge along the tree and the
  final re-alignment of every sequence against the consensus.

  Conventions. A \<^verbatim>\<open>double\<close> is a \<^typ>\<open>real\<close>: arithmetic is exact, there is no rounding and
  no NaN. Sizes and indices are \<^typ>\<open>nat\<close>, scores are \<^typ>\<open>int\<close>. A loop is a \<^const>\<open>fold\<close>
  over its index range, or a recursive function with a termination proof. The source
  indexes vectors and strings without checks; the model writes \<open>xs ! i\<close> where the
  enclosing loop bounds the index, and writes the out-of-range case out as \<^const>\<open>None\<close>
  where the index is computed (the last branch of the traceback, the node positions of
  the UPGMA loop); those cases are proved unreachable. Console output is not modelled.
\<close>

section \<open>Data model (io.h, alignment.h)\<close>

text \<open>
  \<^verbatim>\<open>struct Sequence { std::string header; std::string sequence; }\<close>.
\<close>

record Sequence =
  header :: string
  sequence :: string

text \<open>
  \<^verbatim>\<open>struct Profile\<close>: per-column symbol frequencies, per-column gap frequency, the column
  count and the number of sequences folded in. The C++ \<^verbatim>\<open>double\<close> is modelled by \<^typ>\<open>real\<close>
  (exact arithmetic, no rounding); the C++ \<^verbatim>\<open>int\<close> fields only ever hold sizes and are
  modelled by \<^typ>\<open>nat\<close>. The field \<^verbatim>\<open>length\<close> is called \<open>length_p\<close> here, since
  \<^const>\<open>length\<close> is the list length of HOL.
\<close>

record Profile =
  frequencies :: "real list list"
  gap_frequencies :: "real list"
  length_p :: nat
  num_sequences :: nat

text \<open>
  \<^verbatim>\<open>struct TreeNode { int id; double distance; shared_ptr left, right; vector<int> sequences; }\<close>.
  A null \<^verbatim>\<open>shared_ptr\<close> is \<^const>\<open>None\<close>. The field \<^verbatim>\<open>id\<close> is called \<open>node_id\<close> here
  (\<^const>\<open>id\<close> is the identity function of HOL).
\<close>

datatype TreeNode =
  TreeNode (node_id: int) (distance: real) (left: "TreeNode option") (right: "TreeNode option")
    (sequences: "nat list")

section \<open>Constants of the aligner\<close>

text \<open>
  The scoring fields are set once by the constructor
  (\<^verbatim>\<open>match_score(2), mismatch_score(-1), gap_penalty(-2)\<close>) and never assigned again.
\<close>

definition match_score :: int where "match_score = 2"
definition mismatch_score :: int where "mismatch_score = - 1"
definition gap_penalty :: int where "gap_penalty = - 2"

definition DNA_ALPHABET :: string where "DNA_ALPHABET = ''ATCG''"
definition ALPHABET_SIZE :: nat where "ALPHABET_SIZE = 4"

text \<open>
  \<^verbatim>\<open>std::toupper\<close> in the "C" locale (the program never calls \<^verbatim>\<open>setlocale\<close>): the 26
  lower-case ASCII letters are mapped to upper case, every other byte is unchanged.
\<close>

definition toupper :: "char \<Rightarrow> char" where
  "toupper c =
     (case map_of (zip ''abcdefghijklmnopqrstuvwxyz'' ''ABCDEFGHIJKLMNOPQRSTUVWXYZ'') c of
        Some u \<Rightarrow> u
      | None \<Rightarrow> c)"

text \<open>\<^verbatim>\<open>std::string::find(char)\<close>: the first index holding the character, \<^const>\<open>None\<close> for \<^verbatim>\<open>npos\<close>.\<close>

fun string_find :: "string \<Rightarrow> char \<Rightarrow> nat option" where
  "string_find [] c = None"
| "string_find (x # xs) c =
     (if x = c then Some 0 else map_option Suc (string_find xs c))"

definition getAlphabetIndex :: "char \<Rightarrow> int" where
  "getAlphabetIndex c = (let upper_c = toupper c in
     case string_find DNA_ALPHABET upper_c of Some pos \<Rightarrow> int pos | None \<Rightarrow> - 1)"

definition getAlphabetChar :: "nat \<Rightarrow> char" where
  "getAlphabetChar index =
     (if index < length DNA_ALPHABET then DNA_ALPHABET ! index else CHR ''N'')"

section \<open>Pairwise aligner (Needleman-Wunsch)\<close>

definition calculateMatchScore :: "char \<Rightarrow> char \<Rightarrow> int" where
  "calculateMatchScore c1 c2 = (if toupper c1 = toupper c2 then match_score else mismatch_score)"

text \<open>
  \<^verbatim>\<open>pairwiseAlignment\<close> in three parts, named as in the copy of the file under \<^verbatim>\<open>src/\<close>,
  which splits the same statements into \<^verbatim>\<open>initializeDPMatrix\<close>, \<^verbatim>\<open>fillDPMatrix\<close> and
  \<^verbatim>\<open>reconstructAlignment\<close>. First the \<open>(m+1) \<times> (n+1)\<close> table, zero-filled, then its first
  column and first row.
\<close>

definition initializeDPMatrix :: "nat \<Rightarrow> nat \<Rightarrow> int list list" where
  "initializeDPMatrix m n =
     (let dp = replicate (m + 1) (replicate (n + 1) (0::int));
          dp = fold (\<lambda>i dp. dp[i := (dp ! i)[0 := int i * gap_penalty]]) [0..<m + 1] dp;
          dp = fold (\<lambda>j dp. dp[0 := (dp ! 0)[j := int j * gap_penalty]]) [0..<n + 1] dp
      in dp)"

text \<open>The body of the fill loop: \<^verbatim>\<open>dp[i][j] = std::max({match, delete_op, insert_op})\<close>.\<close>

definition fillCell :: "string \<Rightarrow> string \<Rightarrow> nat \<Rightarrow> nat \<Rightarrow> int list list \<Rightarrow> int list list" where
  "fillCell seq1 seq2 i j dp =
     (let match = dp ! (i - 1) ! (j - 1) + calculateMatchScore (seq1 ! (i - 1)) (seq2 ! (j - 1));
          delete_op = dp ! (i - 1) ! j + gap_penalty;
          insert_op = dp ! i ! (j - 1) + gap_penalty
      in dp[i := (dp ! i)[j := max match (max delete_op insert_op)]])"

definition fillDPMatrix :: "int list list \<Rightarrow> string \<Rightarrow> string \<Rightarrow> nat \<Rightarrow> nat \<Rightarrow> int list list" where
  "fillDPMatrix dp seq1 seq2 m n =
     fold (\<lambda>i dp. fold (\<lambda>j dp. fillCell seq1 seq2 i j dp) [1..<n + 1] dp) [1..<m + 1] dp"

text \<open>
  The traceback loop \<^verbatim>\<open>while (i > 0 || j > 0)\<close>. The strings are built by prepending, so
  the accumulators are the aligned suffixes. In the last branch the source reads
  \<^verbatim>\<open>seq2[j-1]\<close> and decrements \<open>j\<close> without testing \<open>j > 0\<close>; reaching it with \<open>j = 0\<close>
  would read out of range and wrap the index, which is the result \<^const>\<open>None\<close> here.
\<close>

function reconstructAlignment ::
  "int list list \<Rightarrow> string \<Rightarrow> string \<Rightarrow> nat \<Rightarrow> nat \<Rightarrow> string \<Rightarrow> string \<Rightarrow> (string \<times> string) option"
where
  "reconstructAlignment dp seq1 seq2 i j aligned_seq1 aligned_seq2 =
     (if i > 0 \<or> j > 0 then
        (if i > 0 \<and> j > 0 \<and>
            dp ! i ! j = dp ! (i - 1) ! (j - 1) + calculateMatchScore (seq1 ! (i - 1)) (seq2 ! (j - 1))
         then reconstructAlignment dp seq1 seq2 (i - 1) (j - 1)
                (seq1 ! (i - 1) # aligned_seq1) (seq2 ! (j - 1) # aligned_seq2)
         else if i > 0 \<and> dp ! i ! j = dp ! (i - 1) ! j + gap_penalty
         then reconstructAlignment dp seq1 seq2 (i - 1) j
                (seq1 ! (i - 1) # aligned_seq1) (CHR ''-'' # aligned_seq2)
         else if j > 0
         then reconstructAlignment dp seq1 seq2 i (j - 1)
                (CHR ''-'' # aligned_seq1) (seq2 ! (j - 1) # aligned_seq2)
         else None)
      else Some (aligned_seq1, aligned_seq2))"
  by pat_completeness auto
termination
  by (relation "measure (\<lambda>(dp, seq1, seq2, i, j, a1, a2). i + j)") auto

declare reconstructAlignment.simps [simp del]

text \<open>The filled table of two strings; \<open>nw_table seq1 seq2 ! m ! n\<close> is \<^verbatim>\<open>dp[m][n]\<close>.\<close>

definition nw_table :: "string \<Rightarrow> string \<Rightarrow> int list list" where
  "nw_table seq1 seq2 =
     (let m = length seq1; n = length seq2
      in fillDPMatrix (initializeDPMatrix m n) seq1 seq2 m n)"

definition pairwiseAlignment :: "string \<Rightarrow> string \<Rightarrow> (string \<times> string) option" where
  "pairwiseAlignment seq1 seq2 =
     (let m = length seq1; n = length seq2; dp = nw_table seq1 seq2
      in reconstructAlignment dp seq1 seq2 m n [] [])"

section \<open>Distance estimator\<close>

definition calculateSequenceDistance :: "string \<Rightarrow> string \<Rightarrow> real" where
  "calculateSequenceDistance seq1 seq2 =
     (if seq1 = [] \<or> seq2 = [] then 1
      else
        let min_length = min (length seq1) (length seq2);
            max_length = max (length seq1) (length seq2)
        in if min_length = 0 then 1
           else
             let matches = fold (\<lambda>i matches.
                     if toupper (seq1 ! i) = toupper (seq2 ! i) then matches + 1 else matches)
                   [0..<min_length] (0::nat);
                 identity = real matches / real max_length
             in 1 - identity)"

text \<open>
  \<^verbatim>\<open>matrix[i][j] = matrix[j][i] = distance\<close> assigns \<^verbatim>\<open>matrix[j][i]\<close> first, then
  \<^verbatim>\<open>matrix[i][j]\<close>.
\<close>

definition distance_cell :: "Sequence list \<Rightarrow> nat \<Rightarrow> nat \<Rightarrow> real list list \<Rightarrow> real list list" where
  "distance_cell seqs i j matrix =
     (let d = calculateSequenceDistance (sequence (seqs ! i)) (sequence (seqs ! j));
          matrix = matrix[j := (matrix ! j)[i := d]];
          matrix = matrix[i := (matrix ! i)[j := d]]
      in matrix)"

definition calculateDistanceMatrix :: "Sequence list \<Rightarrow> real list list" where
  "calculateDistanceMatrix seqs =
     (let n = length seqs;
          matrix = replicate n (replicate n (0::real))
      in fold (\<lambda>i matrix. fold (distance_cell seqs i) [i + 1..<n] matrix) [0..<n] matrix)"

section \<open>Guide tree builder (UPGMA)\<close>

text \<open>\<^verbatim>\<open>std::numeric_limits<double>::max()\<close>, the largest finite IEEE-754 double.\<close>

definition DBL_MAX :: real where
  "DBL_MAX = (2 - 1 / 2 ^ 52) * 2 ^ 1023"

text \<open>The average-linkage distance of two active nodes (the two innermost loops).\<close>

definition average_linkage :: "real list list \<Rightarrow> TreeNode \<Rightarrow> TreeNode \<Rightarrow> real" where
  "average_linkage distance_matrix ni nj =
     (let dist = fold (\<lambda>si dist.
                   fold (\<lambda>sj dist. dist + distance_matrix ! si ! sj) (sequences nj) dist)
                 (sequences ni) 0
      in dist / real (length (sequences ni) * length (sequences nj)))"

text \<open>The closest-pair search; the state is \<open>(min_i, min_j, min_distance)\<close>.\<close>

definition find_closest :: "real list list \<Rightarrow> TreeNode list \<Rightarrow> nat \<times> nat \<times> real" where
  "find_closest distance_matrix nodes =
     fold (\<lambda>i st.
       fold (\<lambda>j (min_i, min_j, min_distance).
         let dist = average_linkage distance_matrix (nodes ! i) (nodes ! j)
         in if dist < min_distance then (i, j, dist) else (min_i, min_j, min_distance))
       [i + 1..<length nodes] st)
     [0..<length nodes] (0, 1, DBL_MAX)"

text \<open>
  \<^verbatim>\<open>vector::erase(begin() + k)\<close>; erasing at or past the end is undefined in C++ and is
  \<^const>\<open>None\<close> here.
\<close>

definition erase :: "'a list \<Rightarrow> nat \<Rightarrow> 'a list option" where
  "erase xs k = (if k < length xs then Some (take k xs @ drop (Suc k) xs) else None)"

text \<open>The first loop: one leaf per input index, carrying that index as its only member.\<close>

definition leaf_nodes :: "nat \<Rightarrow> TreeNode list" where
  "leaf_nodes n = fold (\<lambda>i nodes. nodes @ [TreeNode (int i) 0 None None [i]]) [0..<n] []"

text \<open>
  One iteration of the UPGMA loop: the new internal node is built from \<^verbatim>\<open>nodes[min_i]\<close>
  and \<^verbatim>\<open>nodes[min_j]\<close>, the two are erased (the larger position first), and the new node
  is appended.
\<close>

definition merge_step :: "real list list \<Rightarrow> TreeNode list \<Rightarrow> TreeNode list option" where
  "merge_step distance_matrix nodes =
     (case find_closest distance_matrix nodes of (min_i, min_j, min_distance) \<Rightarrow>
        if min_i < length nodes \<and> min_j < length nodes then
          (let new_node = TreeNode (- 1) (min_distance / 2)
                 (Some (nodes ! min_i)) (Some (nodes ! min_j))
                 (sequences (nodes ! min_i) @ sequences (nodes ! min_j));
               erased =
                 (if min_i < min_j
                  then Option.bind (erase nodes min_j) (\<lambda>nodes. erase nodes min_i)
                  else Option.bind (erase nodes min_i) (\<lambda>nodes. erase nodes min_j))
           in map_option (\<lambda>nodes. nodes @ [new_node]) erased)
        else None)"

text \<open>
  The loop \<^verbatim>\<open>while (nodes.size() > 1)\<close>; the result is \<^const>\<open>None\<close> when an iteration
  would index or erase out of range.
\<close>

function upgma_loop :: "real list list \<Rightarrow> TreeNode list \<Rightarrow> TreeNode list option" where
  "upgma_loop distance_matrix nodes =
     (if length nodes > 1 then
        (case merge_step distance_matrix nodes of
           None \<Rightarrow> None
         | Some nodes' \<Rightarrow> upgma_loop distance_matrix nodes')
      else Some nodes)"
  by pat_completeness auto
termination
  by (relation "measure (\<lambda>(dm, nodes). length nodes)")
    (auto simp: merge_step_def erase_def Let_def split: prod.splits if_splits Option.bind_splits)

declare upgma_loop.simps [simp del]

text \<open>The result is the root, or \<^const>\<open>None\<close> for \<^verbatim>\<open>nullptr\<close> when there is no node at all.\<close>

definition buildGuideTree :: "Sequence list \<Rightarrow> real list list \<Rightarrow> TreeNode option option" where
  "buildGuideTree seqs distance_matrix =
     (let n = length seqs
      in case upgma_loop distance_matrix (leaf_nodes n) of
           None \<Rightarrow> None
         | Some nodes \<Rightarrow> Some (if nodes = [] then None else Some (hd nodes)))"

section \<open>Profile model\<close>

text \<open>The default constructor \<^verbatim>\<open>Profile() : length(0), num_sequences(0)\<close>.\<close>

definition Profile_empty :: Profile where
  "Profile_empty = \<lparr>frequencies = [], gap_frequencies = [], length_p = 0, num_sequences = 0\<rparr>"

text \<open>
  \<^verbatim>\<open>createProfile\<close>: the body of its loop, then the function. A character outside the
  alphabet has \<^verbatim>\<open>base_idx = -1\<close> and leaves its column as it is.
\<close>

definition createProfile_step :: "string \<Rightarrow> nat \<Rightarrow> Profile \<Rightarrow> Profile" where
  "createProfile_step s pos profile =
     (let c = s ! pos in
      if c = CHR ''-'' then
        profile\<lparr>gap_frequencies := (gap_frequencies profile)[pos := 1]\<rparr>
      else
        (let base_idx = getAlphabetIndex c in
         if base_idx \<ge> 0 then
           profile\<lparr>frequencies :=
             (frequencies profile)[pos := (frequencies profile ! pos)[nat base_idx := 1]]\<rparr>
         else profile))"

definition createProfile :: "string \<Rightarrow> Profile" where
  "createProfile s =
     (let profile = \<lparr>frequencies = replicate (length s) (replicate ALPHABET_SIZE 0),
                     gap_frequencies = replicate (length s) 0,
                     length_p = length s, num_sequences = 1\<rparr>
      in fold (createProfile_step s) [0..<length_p profile] profile)"

text \<open>
  The consensus loop, written out three times in \<^verbatim>\<open>alignment.cpp\<close> (twice in
  \<^verbatim>\<open>alignProfiles\<close>, once in \<^verbatim>\<open>profileToSequences\<close>): per column the symbol of the
  strictly largest frequency, starting from \<^verbatim>\<open>best_char = 'A', best_freq = 0.0\<close>.
\<close>

definition findBestCharacterAtPosition :: "Profile \<Rightarrow> nat \<Rightarrow> char" where
  "findBestCharacterAtPosition profile pos =
     fst (fold (\<lambda>base (best_char, best_freq).
            if frequencies profile ! pos ! base > best_freq
            then (getAlphabetChar base, frequencies profile ! pos ! base)
            else (best_char, best_freq))
          [0..<ALPHABET_SIZE] (CHR ''A'', 0))"

definition generateConsensusFromProfile :: "Profile \<Rightarrow> string" where
  "generateConsensusFromProfile profile =
     fold (\<lambda>pos consensus. consensus @ [findBestCharacterAtPosition profile pos])
       [0..<length_p profile] []"

text \<open>
  One contribution block of the merge loop: column \<open>src_pos\<close> of \<open>src\<close>, scaled by its
  \<open>num_sequences\<close>, is added to column \<open>pos\<close> of the combined profile.
\<close>

definition add_contribution :: "Profile \<Rightarrow> nat \<Rightarrow> Profile \<Rightarrow> nat \<Rightarrow> Profile" where
  "add_contribution combined pos src src_pos =
     (let fr = fold (\<lambda>base fr.
                 fr[pos := (fr ! pos)[base :=
                   fr ! pos ! base + frequencies src ! src_pos ! base * real (num_sequences src)]])
               [0..<ALPHABET_SIZE] (frequencies combined);
          gf = (gap_frequencies combined)[pos :=
                 gap_frequencies combined ! pos
                 + gap_frequencies src ! src_pos * real (num_sequences src)]
      in combined\<lparr>frequencies := fr, gap_frequencies := gf\<rparr>)"

text \<open>The normalisation block: column \<open>pos\<close> is divided by \<open>num_sequences\<close>.\<close>

definition normalizeFrequenciesAtPosition :: "Profile \<Rightarrow> nat \<Rightarrow> Profile" where
  "normalizeFrequenciesAtPosition profile pos =
     (let fr = fold (\<lambda>base fr.
                 fr[pos := (fr ! pos)[base := fr ! pos ! base / real (num_sequences profile)]])
               [0..<ALPHABET_SIZE] (frequencies profile);
          gf = (gap_frequencies profile)[pos :=
                 gap_frequencies profile ! pos / real (num_sequences profile)]
      in profile\<lparr>frequencies := fr, gap_frequencies := gf\<rparr>)"

text \<open>The body of the merge loop; the state is \<open>(combined_profile, pos1, pos2)\<close>.\<close>

definition alignProfiles_column ::
  "string \<times> string \<Rightarrow> Profile \<Rightarrow> Profile \<Rightarrow> nat \<Rightarrow> Profile \<times> nat \<times> nat \<Rightarrow> Profile \<times> nat \<times> nat"
where
  "alignProfiles_column aligned_pair profile1 profile2 pos st =
     (case st of (combined, pos1, pos2) \<Rightarrow>
        let char1 = fst aligned_pair ! pos;
            char2 = snd aligned_pair ! pos;
            (combined, pos1) =
              (if char1 \<noteq> CHR ''-'' \<and> pos1 < length_p profile1
               then (add_contribution combined pos profile1 pos1, pos1 + 1)
               else (combined, pos1));
            (combined, pos2) =
              (if char2 \<noteq> CHR ''-'' \<and> pos2 < length_p profile2
               then (add_contribution combined pos profile2 pos2, pos2 + 1)
               else (combined, pos2))
        in (normalizeFrequenciesAtPosition combined pos, pos1, pos2))"

definition alignProfiles :: "Profile \<Rightarrow> Profile \<Rightarrow> Profile option" where
  "alignProfiles profile1 profile2 =
     (let consensus1 = generateConsensusFromProfile profile1;
          consensus2 = generateConsensusFromProfile profile2
      in case pairwiseAlignment consensus1 consensus2 of
           None \<Rightarrow> None
         | Some aligned_pair \<Rightarrow>
             let len = length (fst aligned_pair);
                 combined_profile =
                   \<lparr>frequencies = replicate len (replicate ALPHABET_SIZE 0),
                    gap_frequencies = replicate len 0,
                    length_p = len,
                    num_sequences = num_sequences profile1 + num_sequences profile2\<rparr>
             in Some (fst (fold (alignProfiles_column aligned_pair profile1 profile2)
                             [0..<length_p combined_profile] (combined_profile, 0, 0))))"

section \<open>Progressive aligner\<close>

text \<open>
  The recursive walk of the guide tree: a null node gives the empty profile, a leaf the
  profile of its sequence, a node with two children the merge of their profiles, any
  other node the empty profile.
\<close>

fun progressiveAlignment :: "Sequence list \<Rightarrow> TreeNode option \<Rightarrow> Profile option" where
  "progressiveAlignment seqs None = Some Profile_empty"
| "progressiveAlignment seqs (Some (TreeNode i d l r ss)) =
     (if ss \<noteq> [] \<and> l = None \<and> r = None then
        (let seq_idx = ss ! 0 in Some (createProfile (sequence (seqs ! seq_idx))))
      else if l \<noteq> None \<and> r \<noteq> None then
        (case progressiveAlignment seqs l of
           None \<Rightarrow> None
         | Some left_profile \<Rightarrow>
             (case progressiveAlignment seqs r of
                None \<Rightarrow> None
              | Some right_profile \<Rightarrow> alignProfiles left_profile right_profile))
      else Some Profile_empty)"

text \<open>
  Every input is aligned on its own against the consensus of the final profile; the
  first row of that pairwise alignment is its output. \<^verbatim>\<open>sequence_order\<close> is not used.
\<close>

definition profileToSequences :: "Profile \<Rightarrow> Sequence list \<Rightarrow> nat list \<Rightarrow> Sequence list option" where
  "profileToSequences profile seqs sequence_order =
     fold (\<lambda>i acc.
       case acc of
         None \<Rightarrow> None
       | Some aligned_sequences \<Rightarrow>
           (let consensus = generateConsensusFromProfile profile
            in case pairwiseAlignment (sequence (seqs ! i)) consensus of
                 None \<Rightarrow> None
               | Some aligned_pair \<Rightarrow>
                   Some (aligned_sequences @
                     [\<lparr>header = header (seqs ! i), sequence = fst aligned_pair\<rparr>])))
       [0..<length seqs] (Some [])"

text \<open>
  The mutable members of \<^verbatim>\<open>class MSAAligner\<close>. \<^verbatim>\<open>alignSequences\<close> takes the object and
  returns it updated, next to the returned vector.
\<close>

record MSAAligner =
  total_gaps :: nat
  final_length :: nat
  guide_tree :: "TreeNode option"

definition MSAAligner_new :: MSAAligner where
  "MSAAligner_new = \<lparr>total_gaps = 0, final_length = 0, guide_tree = None\<rparr>"

text \<open>
  The ways a call can end other than by returning: \<open>InsufficientInputError\<close> is the typed
  failure that the specification names, \<open>OutOfRange\<close> stands for an index outside a vector
  or string (undefined behaviour in C++). A normal return is \<^const>\<open>Inr\<close>.
\<close>

datatype error = InsufficientInputError | OutOfRange

definition alignSequences ::
  "MSAAligner \<Rightarrow> Sequence list \<Rightarrow> error + (Sequence list \<times> MSAAligner)"
where
  "alignSequences this seqs =
     (if length seqs < 2 then Inr (seqs, this)
      else
        let this = this\<lparr>total_gaps := 0, final_length := 0\<rparr>;
            distance_matrix = calculateDistanceMatrix seqs
        in (case buildGuideTree seqs distance_matrix of
              None \<Rightarrow> Inl OutOfRange
            | Some tree \<Rightarrow>
                (let this = this\<lparr>guide_tree := tree\<rparr>
                 in (case progressiveAlignment seqs (guide_tree this) of
                       None \<Rightarrow> Inl OutOfRange
                     | Some final_profile \<Rightarrow>
                         (let sequence_order = [0..<length seqs]
                          in (case profileToSequences final_profile seqs sequence_order of
                                None \<Rightarrow> Inl OutOfRange
                              | Some aligned_sequences \<Rightarrow>
                                  (let this =
                                     (if aligned_sequences \<noteq> [] then
                                        this\<lparr>final_length :=
                                               length (sequence (aligned_sequences ! 0)),
                                             total_gaps := fold (\<lambda>seq g.
                                                 g + count_list (sequence seq) (CHR ''-''))
                                               aligned_sequences (total_gaps this)\<rparr>
                                      else this)
                                   in Inr (aligned_sequences, this))))))))"

section \<open>Definitions for the statements\<close>

text \<open>
  What follows is not code of the repository: the notions that the claims are stated in,
  written after the specification, and the invariants of the loops.
\<close>

subsection \<open>The Needleman-Wunsch recurrence and global alignments\<close>

text \<open>
  The recurrence of the specification: \<open>S[0][j] = j \<times> gap\<close>, \<open>S[i][0] = i \<times> gap\<close>,
  \<open>S[i][j] = max (S[i-1][j-1] + score, S[i-1][j] + gap, S[i][j-1] + gap)\<close>.
\<close>

fun nw_score :: "string \<Rightarrow> string \<Rightarrow> nat \<Rightarrow> nat \<Rightarrow> int" where
  "nw_score a b 0 j = int j * gap_penalty"
| "nw_score a b (Suc i) 0 = int (Suc i) * gap_penalty"
| "nw_score a b (Suc i) (Suc j) =
     max (nw_score a b i j + calculateMatchScore (a ! i) (b ! j))
       (max (nw_score a b i (Suc j) + gap_penalty) (nw_score a b (Suc i) j + gap_penalty))"

text \<open>
  A global alignment is a list of columns, each pairing a character of the first string
  with one of the second or with a gap (\<^const>\<open>None\<close>), never two gaps; reading the
  non-gap entries of each side gives back the two strings. Its score is the sum of its
  column scores. \<open>all_alignments\<close> is the brute-force enumeration.
\<close>

type_synonym column = "char option \<times> char option"

fun column_score :: "column \<Rightarrow> int" where
  "column_score (Some x, Some y) = calculateMatchScore x y"
| "column_score (a, b) = gap_penalty"

definition alignment_score :: "column list \<Rightarrow> int" where
  "alignment_score al = sum_list (map column_score al)"

fun all_alignments :: "string \<Rightarrow> string \<Rightarrow> column list list" where
  "all_alignments [] [] = [[]]"
| "all_alignments (x # xs) [] = map ((#) (Some x, None)) (all_alignments xs [])"
| "all_alignments [] (y # ys) = map ((#) (None, Some y)) (all_alignments [] ys)"
| "all_alignments (x # xs) (y # ys) =
     map ((#) (Some x, Some y)) (all_alignments xs ys)
     @ map ((#) (Some x, None)) (all_alignments xs (y # ys))
     @ map ((#) (None, Some y)) (all_alignments (x # xs) ys)"

definition strip :: "char option list \<Rightarrow> string" where
  "strip cs = concat (map (\<lambda>c. case c of None \<Rightarrow> [] | Some x \<Rightarrow> [x]) cs)"

definition is_alignment :: "string \<Rightarrow> string \<Rightarrow> column list \<Rightarrow> bool" where
  "is_alignment a b al \<longleftrightarrow>
     strip (map fst al) = a \<and> strip (map snd al) = b \<and> (None, None) \<notin> set al"

definition row1 :: "column list \<Rightarrow> string" where
  "row1 al = map (\<lambda>c. case fst c of None \<Rightarrow> CHR ''-'' | Some x \<Rightarrow> x) al"

definition row2 :: "column list \<Rightarrow> string" where
  "row2 al = map (\<lambda>c. case snd c of None \<Rightarrow> CHR ''-'' | Some y \<Rightarrow> y) al"

fun opt_score :: "string \<Rightarrow> string \<Rightarrow> int" where
  "opt_score [] [] = 0"
| "opt_score (x # xs) [] = gap_penalty + opt_score xs []"
| "opt_score [] (y # ys) = gap_penalty + opt_score [] ys"
| "opt_score (x # xs) (y # ys) =
     max (calculateMatchScore x y + opt_score xs ys)
       (max (gap_penalty + opt_score xs (y # ys)) (gap_penalty + opt_score (x # xs) ys))"

definition scores :: "string \<Rightarrow> string \<Rightarrow> int set" where
  "scores a b = set (map alignment_score (all_alignments a b))"

text \<open>
  \<open>gapped_copy s t\<close>: the string \<open>t\<close> is \<open>s\<close> with \<open>'-'\<close> characters inserted.
\<close>

fun gapped_copy :: "string \<Rightarrow> string \<Rightarrow> bool" where
  "gapped_copy [] t = list_all (\<lambda>c. c = CHR ''-'') t"
| "gapped_copy (x # xs) [] = False"
| "gapped_copy (x # xs) (y # ys) =
     ((x = y \<and> gapped_copy xs ys) \<or> (y = CHR ''-'' \<and> gapped_copy (x # xs) ys))"

definition strip_gaps :: "string \<Rightarrow> string" where
  "strip_gaps s = filter (\<lambda>c. c \<noteq> CHR ''-'') s"

definition nongap_count :: "string \<Rightarrow> nat \<Rightarrow> nat" where
  "nongap_count s k = length (filter (\<lambda>c. c \<noteq> CHR ''-'') (take k s))"

text \<open>
  Invariants of the table loops.
\<close>

definition dims :: "nat \<Rightarrow> nat \<Rightarrow> 'a list list \<Rightarrow> bool" where
  "dims m n dp \<longleftrightarrow> length dp = Suc m \<and> (\<forall>row\<in>set dp. length row = Suc n)"

definition init1 :: "nat \<Rightarrow> nat \<Rightarrow> nat \<Rightarrow> int list list \<Rightarrow> bool" where
  "init1 m n k dp \<longleftrightarrow> dims m n dp \<and>
     (\<forall>i\<le>m. \<forall>j\<le>n. dp ! i ! j = (if j = 0 \<and> i < k then int i * gap_penalty else 0))"

definition init2 :: "nat \<Rightarrow> nat \<Rightarrow> nat \<Rightarrow> int list list \<Rightarrow> bool" where
  "init2 m n k dp \<longleftrightarrow> dims m n dp \<and>
     (\<forall>i\<le>m. \<forall>j\<le>n. dp ! i ! j =
        (if i = 0 \<and> j < k then int j * gap_penalty
         else if j = 0 then int i * gap_penalty else 0))"

definition filled :: "string \<Rightarrow> string \<Rightarrow> nat \<Rightarrow> nat \<Rightarrow> nat \<Rightarrow> nat \<Rightarrow> int list list \<Rightarrow> bool" where
  "filled a b m n i0 j0 dp \<longleftrightarrow> dims m n dp \<and>
     (\<forall>i\<le>m. \<forall>j\<le>n. i = 0 \<or> j = 0 \<or> i < i0 \<or> (i = i0 \<and> j < j0) \<longrightarrow>
        dp ! i ! j = nw_score a b i j)"

subsection \<open>Distances\<close>

text \<open>
  The number of positions of the overlap at which the strings agree up to case.
\<close>

definition positional_matches :: "string \<Rightarrow> string \<Rightarrow> nat" where
  "positional_matches seqA seqB =
     card {i. i < min (length seqA) (length seqB) \<and> toupper (seqA ! i) = toupper (seqB ! i)}"

definition dist_of :: "Sequence list \<Rightarrow> nat \<Rightarrow> nat \<Rightarrow> real" where
  "dist_of seqs i j = calculateSequenceDistance (sequence (seqs ! i)) (sequence (seqs ! j))"

definition dm_inv :: "Sequence list \<Rightarrow> nat \<Rightarrow> nat \<Rightarrow> real list list \<Rightarrow> bool" where
  "dm_inv seqs i0 j0 M \<longleftrightarrow>
     length M = length seqs \<and> (\<forall>row\<in>set M. length row = length seqs) \<and>
     (\<forall>x<length seqs. \<forall>y<length seqs.
        M ! x ! y =
          (if x < y \<and> (x < i0 \<or> (x = i0 \<and> y < j0)) then dist_of seqs x y
           else if y < x \<and> (y < i0 \<or> (y = i0 \<and> x < j0)) then dist_of seqs y x
           else 0))"

subsection \<open>Profiles\<close>

text \<open>
  The probability mass of a column: its symbol frequencies plus its gap frequency. A
  profile is well formed when its vectors have \<open>length_p\<close> entries and every frequency
  row has \<open>ALPHABET_SIZE\<close> entries.
\<close>

definition column_mass :: "Profile \<Rightarrow> nat \<Rightarrow> real" where
  "column_mass profile pos = sum_list (frequencies profile ! pos) + gap_frequencies profile ! pos"

definition wf_profile :: "Profile \<Rightarrow> bool" where
  "wf_profile p \<longleftrightarrow>
     length (frequencies p) = length_p p \<and> length (gap_frequencies p) = length_p p \<and>
     (\<forall>row\<in>set (frequencies p). length row = ALPHABET_SIZE)"

definition one_hot :: "char \<Rightarrow> real list" where
  "one_hot c =
     (if c \<noteq> CHR ''-'' \<and> getAlphabetIndex c \<ge> 0
      then (replicate ALPHABET_SIZE 0)[nat (getAlphabetIndex c) := 1]
      else replicate ALPHABET_SIZE 0)"

definition cp_inv :: "string \<Rightarrow> nat \<Rightarrow> Profile \<Rightarrow> bool" where
  "cp_inv s k profile \<longleftrightarrow>
     length_p profile = length s \<and> num_sequences profile = 1 \<and>
     length (frequencies profile) = length s \<and> length (gap_frequencies profile) = length s \<and>
     (\<forall>pos<length s.
        frequencies profile ! pos = (if pos < k then one_hot (s ! pos) else replicate ALPHABET_SIZE 0) \<and>
        gap_frequencies profile ! pos = (if pos < k \<and> s ! pos = CHR ''-'' then 1 else 0))"

definition merged_mass :: "string \<times> string \<Rightarrow> Profile \<Rightarrow> Profile \<Rightarrow> nat \<Rightarrow> real" where
  "merged_mass ap p1 p2 pos =
     ((if fst ap ! pos \<noteq> CHR ''-''
       then column_mass p1 (nongap_count (fst ap) pos) * real (num_sequences p1) else 0)
      + (if snd ap ! pos \<noteq> CHR ''-''
         then column_mass p2 (nongap_count (snd ap) pos) * real (num_sequences p2) else 0))
     / real (num_sequences p1 + num_sequences p2)"

definition merge_inv ::
  "string \<times> string \<Rightarrow> Profile \<Rightarrow> Profile \<Rightarrow> nat \<Rightarrow> nat \<Rightarrow> Profile \<times> nat \<times> nat \<Rightarrow> bool" where
  "merge_inv ap p1 p2 L k st \<longleftrightarrow>
     (case st of (c, pos1, pos2) \<Rightarrow>
        wf_profile c \<and> length_p c = L \<and>
        num_sequences c = num_sequences p1 + num_sequences p2 \<and>
        pos1 = nongap_count (fst ap) k \<and> pos2 = nongap_count (snd ap) k \<and>
        (\<forall>q<L. column_mass c q = (if q < k then merged_mass ap p1 p2 q else 0)))"

subsection \<open>Trees\<close>

text \<open>
  A leaf has no child, an internal node has at least one; a tree is binary when every
  node has no child or two.
\<close>

fun num_leaves :: "TreeNode \<Rightarrow> nat" where
  "num_leaves (TreeNode i d l r ss) =
     (if l = None \<and> r = None then 1
      else (case l of None \<Rightarrow> 0 | Some t \<Rightarrow> num_leaves t)
         + (case r of None \<Rightarrow> 0 | Some t \<Rightarrow> num_leaves t))"

fun num_internal :: "TreeNode \<Rightarrow> nat" where
  "num_internal (TreeNode i d l r ss) =
     (if l = None \<and> r = None then 0
      else 1 + (case l of None \<Rightarrow> 0 | Some t \<Rightarrow> num_internal t)
             + (case r of None \<Rightarrow> 0 | Some t \<Rightarrow> num_internal t))"

fun is_binary :: "TreeNode \<Rightarrow> bool" where
  "is_binary (TreeNode i d l r ss) =
     (case l of
        None \<Rightarrow> r = None
      | Some a \<Rightarrow> (case r of None \<Rightarrow> False | Some b \<Rightarrow> is_binary a \<and> is_binary b))"

definition forest :: "nat \<Rightarrow> TreeNode list \<Rightarrow> bool" where
  "forest N nodes \<longleftrightarrow>
     nodes \<noteq> [] \<and> (\<forall>t\<in>set nodes. is_binary t) \<and>
     sum_list (map num_leaves nodes) = N \<and>
     sum_list (map num_internal nodes) + length nodes = N"

text \<open>
  The members of the active nodes are sequence indices: all below \<open>N\<close>. With an
  \<open>N \<times> N\<close> matrix this is what keeps \<^verbatim>\<open>distance_matrix[si][sj]\<close> in range.
\<close>

definition members_below :: "nat \<Rightarrow> TreeNode list \<Rightarrow> bool" where
  "members_below N nodes \<longleftrightarrow> (\<forall>t\<in>set nodes. \<forall>s\<in>set (sequences t). s < N)"

definition pair_ok :: "nat \<Rightarrow> nat \<times> nat \<times> real \<Rightarrow> bool" where
  "pair_ok n st \<longleftrightarrow> (case st of (min_i, min_j, min_distance) \<Rightarrow> min_i < min_j \<and> min_j < n)"

section \<open>Lemmas\<close>

subsection \<open>Loops as folds\<close>

text \<open>
  Every \<^verbatim>\<open>for\<close> loop of the source is a \<^const>\<open>fold\<close> over an index range. A loop invariant
  that holds at the start and is kept by each iteration holds at the end.
\<close>

lemma fold_upt_invariant:
  assumes "a \<le> b" and "P a s"
    and "\<And>i s. a \<le> i \<Longrightarrow> i < b \<Longrightarrow> P i s \<Longrightarrow> P (Suc i) (f i s)"
  shows "P b (fold f [a..<b] s)"
  using assms
proof (induction b)
  case 0
  then show ?case by simp
next
  case (Suc b)
  show ?case
  proof (cases "a = Suc b")
    case True
    with Suc.prems show ?thesis by simp
  next
    case False
    with Suc.prems have le: "a \<le> b" by simp
    have "P b (fold f [a..<b] s)"
      using Suc.IH [OF le Suc.prems(2)] Suc.prems(3) by simp
    then have "P (Suc b) (f b (fold f [a..<b] s))"
      using Suc.prems(3) le by simp
    with le show ?thesis by simp
  qed
qed

subsection \<open>The dynamic-programming table\<close>

text \<open>
  After initialisation and filling, every entry of the table is the value of the
  recurrence \<^const>\<open>nw_score\<close>. An entry at \<open>(i, j)\<close> is at most \<open>2 (i + j)\<close> in absolute
  value, so the 32-bit \<^verbatim>\<open>int\<close> of the source cannot overflow on strings of fewer than
  \<open>2\<^sup>2\<^sup>9\<close> characters; the model uses unbounded integers.
\<close>

lemma nth_update2:
  "dims m n dp \<Longrightarrow> i \<le> m \<Longrightarrow> j \<le> n \<Longrightarrow> i' \<le> m \<Longrightarrow>
   dp[i := (dp ! i)[j := v]] ! i' ! j' = (if i' = i \<and> j' = j then v else dp ! i' ! j')"
  by (auto simp: dims_def nth_list_update)

lemma dims_update2:
  "dims m n dp \<Longrightarrow> i \<le> m \<Longrightarrow> dims m n (dp[i := (dp ! i)[j := v]])"
  unfolding dims_def
  by (auto dest!: set_update_subset_insert [THEN subsetD])

lemma replicate2_nth:
  "i \<le> m \<Longrightarrow> j \<le> n \<Longrightarrow> replicate (m + 1) (replicate (n + 1) x) ! i ! j = x"
  by (simp del: replicate.simps add: less_Suc_eq_le)

lemma dims_replicate: "dims m n (replicate (m + 1) (replicate (n + 1) x))"
  by (simp add: dims_def del: replicate.simps)

lemma init1_step:
  assumes "init1 m n i dp" "i < Suc m"
  shows "init1 m n (Suc i) (dp[i := (dp ! i)[0 := int i * gap_penalty]])"
  using assms unfolding init1_def
  by (auto simp: nth_update2 dims_update2 less_Suc_eq_le)

lemma init2_step:
  assumes "init2 m n j dp" "j < Suc n"
  shows "init2 m n (Suc j) (dp[0 := (dp ! 0)[j := int j * gap_penalty]])"
  using assms unfolding init2_def
  by (auto simp: nth_update2 dims_update2 less_Suc_eq_le)

lemma initializeDPMatrix_init2: "init2 m n (Suc n) (initializeDPMatrix m n)"
proof -
  let ?dp0 = "replicate (m + 1) (replicate (n + 1) (0::int))"
  let ?dp1 = "fold (\<lambda>i dp. dp[i := (dp ! i)[0 := int i * gap_penalty]]) [0..<m + 1] ?dp0"
  have "init1 m n 0 ?dp0"
    unfolding init1_def using dims_replicate replicate2_nth by auto
  then have "init1 m n (m + 1) ?dp1"
    by (rule fold_upt_invariant [where P = "init1 m n", rotated]) (simp_all add: init1_step)
  then have "init2 m n 0 ?dp1"
    by (auto simp: init1_def init2_def)
  then have "init2 m n (n + 1)
      (fold (\<lambda>j dp. dp[0 := (dp ! 0)[j := int j * gap_penalty]]) [0..<n + 1] ?dp1)"
    by (rule fold_upt_invariant [where P = "init2 m n", rotated]) (simp_all add: init2_step)
  then show ?thesis
    by (simp add: initializeDPMatrix_def Let_def)
qed

lemma nw_score_col0: "nw_score a b i 0 = int i * gap_penalty"
  by (cases i) simp_all

lemma init2_filled: "init2 m n (Suc n) dp \<Longrightarrow> filled a b m n 1 1 dp"
  by (auto simp: init2_def filled_def nw_score_col0)

lemma fillCell_step:
  assumes f: "filled a b m n i j dp" and i: "1 \<le> i" "i \<le> m" and j: "1 \<le> j" "j \<le> n"
  shows "filled a b m n i (Suc j) (fillCell a b i j dp)"
proof -
  obtain i' j' where ij: "i = Suc i'" "j = Suc j'"
    using i j by (cases i; cases j) auto
  have d: "dims m n dp" using f by (simp add: filled_def)
  have c1: "dp ! i' ! j' = nw_score a b i' j'"
    using f i j ij by (simp add: filled_def)
  have c2: "dp ! i' ! j = nw_score a b i' j"
    using f i j ij by (simp add: filled_def)
  have c3: "dp ! i ! j' = nw_score a b i j'"
    using f i j ij by (simp add: filled_def)
  have v: "max (dp ! (i - 1) ! (j - 1) + calculateMatchScore (a ! (i - 1)) (b ! (j - 1)))
             (max (dp ! (i - 1) ! j + gap_penalty) (dp ! i ! (j - 1) + gap_penalty))
           = nw_score a b i j"
    using c1 c2 c3 by (simp add: ij)
  show ?thesis
    unfolding filled_def fillCell_def Let_def v
  proof (intro conjI allI impI)
    show "dims m n (dp[i := (dp ! i)[j := nw_score a b i j]])"
      using d i by (simp add: dims_update2)
  next
    fix x y
    assume xy: "x \<le> m" "y \<le> n" "x = 0 \<or> y = 0 \<or> x < i \<or> x = i \<and> y < Suc j"
    have "dp[i := (dp ! i)[j := nw_score a b i j]] ! x ! y =
        (if x = i \<and> y = j then nw_score a b i j else dp ! x ! y)"
      using d i j xy by (simp add: nth_update2)
    moreover have "\<not> (x = i \<and> y = j) \<Longrightarrow> dp ! x ! y = nw_score a b x y"
      using f xy by (auto simp: filled_def less_Suc_eq)
    ultimately show "dp[i := (dp ! i)[j := nw_score a b i j]] ! x ! y = nw_score a b x y"
      by auto
  qed
qed

lemma filled_next_row:
  assumes "filled a b m n i (Suc n) dp"
  shows "filled a b m n (Suc i) 1 dp"
  unfolding filled_def
proof (intro conjI allI impI)
  show "dims m n dp" using assms by (simp add: filled_def)
next
  fix x y
  assume xy: "x \<le> m" "y \<le> n" "x = 0 \<or> y = 0 \<or> x < Suc i \<or> x = Suc i \<and> y < 1"
  then have "x = 0 \<or> y = 0 \<or> x < i \<or> x = i \<and> y < Suc n" by auto
  with assms xy(1,2) show "dp ! x ! y = nw_score a b x y"
    unfolding filled_def by blast
qed

lemma fill_row:
  assumes f: "filled a b m n i 1 dp" and i: "1 \<le> i" "i \<le> m"
  shows "filled a b m n (Suc i) 1 (fold (\<lambda>j dp. fillCell a b i j dp) [1..<n + 1] dp)"
proof -
  have "filled a b m n i (n + 1) (fold (\<lambda>j dp. fillCell a b i j dp) [1..<n + 1] dp)"
  proof (rule fold_upt_invariant [where P = "filled a b m n i"])
    show "1 \<le> n + 1" by simp
    show "filled a b m n i 1 dp" by (rule f)
    show "filled a b m n i (Suc j) (fillCell a b i j s)"
      if "1 \<le> j" "j < n + 1" "filled a b m n i j s" for j s
      using that i by (intro fillCell_step) auto
  qed
  then show ?thesis
    using filled_next_row [of a b m n i] by simp
qed

lemma fillDPMatrix_filled:
  assumes "filled a b m n 1 1 dp"
  shows "filled a b m n (Suc m) 1 (fillDPMatrix dp a b m n)"
proof -
  have "filled a b m n (m + 1) 1
      (fold (\<lambda>i dp. fold (\<lambda>j dp. fillCell a b i j dp) [1..<n + 1] dp) [1..<m + 1] dp)"
  proof (rule fold_upt_invariant [where P = "\<lambda>i. filled a b m n i 1"])
    show "1 \<le> m + 1" by simp
    show "filled a b m n 1 1 dp" by (rule assms)
    show "filled a b m n (Suc i) 1 (fold (\<lambda>j dp. fillCell a b i j dp) [1..<n + 1] s)"
      if "1 \<le> i" "i < m + 1" "filled a b m n i 1 s" for i s
      using that by (intro fill_row) auto
  qed
  then show ?thesis by (simp add: fillDPMatrix_def)
qed

lemma nw_table_correct:
  assumes "i \<le> length a" "j \<le> length b"
  shows "nw_table a b ! i ! j = nw_score a b i j"
proof -
  have "filled a b (length a) (length b) (Suc (length a)) 1 (nw_table a b)"
    unfolding nw_table_def Let_def
    by (intro fillDPMatrix_filled init2_filled initializeDPMatrix_init2)
  with assms show ?thesis
    by (auto simp: filled_def)
qed

lemma nw_score_ge:
  "nw_score a b (Suc i) (Suc j) = nw_score a b i j + calculateMatchScore (a ! i) (b ! j) \<or>
   nw_score a b (Suc i) (Suc j) = nw_score a b i (Suc j) + gap_penalty \<or>
   nw_score a b (Suc i) (Suc j) = nw_score a b (Suc i) j + gap_penalty"
  by (simp add: max_def)

lemma nw_score_bounds: "\<bar>nw_score a b i j\<bar> \<le> 2 * int (i + j)"
  by (induction a b i j rule: nw_score.induct)
    (auto simp: gap_penalty_def calculateMatchScore_def match_score_def mismatch_score_def)

subsection \<open>Global alignments and their scores\<close>

text \<open>
  The enumeration \<^const>\<open>all_alignments\<close> lists exactly the global alignments of two
  strings, and the recurrence computes the maximum of their scores.
\<close>

lemma strip_simps [simp]:
  "strip [] = []" "strip (None # cs) = strip cs" "strip (Some x # cs) = x # strip cs"
  "strip (cs @ ds) = strip cs @ strip ds"
  by (simp_all add: strip_def)

lemma strip_rev: "strip (rev cs) = rev (strip cs)"
proof (induction cs)
  case Nil
  then show ?case by simp
next
  case (Cons c cs)
  then show ?case by (cases c) simp_all
qed

lemma all_alignments_sound: "al \<in> set (all_alignments a b) \<Longrightarrow> is_alignment a b al"
  by (induction a b arbitrary: al rule: all_alignments.induct)
    (auto simp: is_alignment_def)

lemma all_alignments_complete: "is_alignment a b al \<Longrightarrow> al \<in> set (all_alignments a b)"
proof (induction al arbitrary: a b)
  case Nil
  then show ?case by (simp add: is_alignment_def)
next
  case (Cons c al)
  obtain p q where c: "c = (p, q)" by (cases c)
  have tl: "is_alignment (strip (map fst al)) (strip (map snd al)) al"
    using Cons.prems by (simp add: is_alignment_def)
  note IH = Cons.IH [OF tl]
  show ?case
  proof (cases p)
    case None
    then obtain y where q: "q = Some y"
      using Cons.prems c by (cases q) (auto simp: is_alignment_def)
    have a: "a = strip (map fst al)" and b: "b = y # strip (map snd al)"
      using Cons.prems c None q by (auto simp: is_alignment_def)
    show ?thesis
      using IH unfolding a b c None q
      by (cases "strip (map fst al)") auto
  next
    case (Some x)
    show ?thesis
    proof (cases q)
      case None
      have a: "a = x # strip (map fst al)" and b: "b = strip (map snd al)"
        using Cons.prems c None Some by (auto simp: is_alignment_def)
      show ?thesis
        using IH unfolding a b c None Some
        by (cases "strip (map snd al)") auto
    next
      case (Some y)
      have a: "a = x # strip (map fst al)" and b: "b = y # strip (map snd al)"
        using Cons.prems c Some \<open>p = Some x\<close> by (auto simp: is_alignment_def)
      show ?thesis
        using IH unfolding a b c Some \<open>p = Some x\<close> by auto
    qed
  qed
qed

lemma set_all_alignments: "set (all_alignments a b) = {al. is_alignment a b al}"
  using all_alignments_sound all_alignments_complete by blast

lemma all_alignments_nonempty: "all_alignments a b \<noteq> []"
  by (induction a b rule: all_alignments.induct) auto

lemma alignment_score_Cons: "alignment_score (c # al) = column_score c + alignment_score al"
  by (simp add: alignment_score_def)

lemma Max_shift:
  fixes S :: "int set"
  assumes "finite S" "S \<noteq> {}"
  shows "Max ((+) k ` S) = k + Max S"
  using mono_Max_commute [of "(+) k" S] assms by (simp add: mono_def)

lemma scores_finite: "finite (scores a b)" and scores_nonempty: "scores a b \<noteq> {}"
  by (simp_all add: scores_def all_alignments_nonempty)

lemma scores_simps:
  "scores [] [] = {0}"
  "scores (x # xs) [] = (+) gap_penalty ` scores xs []"
  "scores [] (y # ys) = (+) gap_penalty ` scores [] ys"
  "scores (x # xs) (y # ys) =
     (+) (calculateMatchScore x y) ` scores xs ys \<union>
     ((+) gap_penalty ` scores xs (y # ys) \<union> (+) gap_penalty ` scores (x # xs) ys)"
  by (auto simp: scores_def alignment_score_Cons image_iff alignment_score_def)

lemma Max_scores: "Max (scores a b) = opt_score a b"
proof (induction a b rule: opt_score.induct)
  case 1
  then show ?case by (simp add: scores_simps)
next
  case (2 x xs)
  then show ?case
    by (simp add: scores_simps(2) Max_shift scores_finite scores_nonempty)
next
  case (3 y ys)
  then show ?case
    by (simp add: scores_simps(3) Max_shift scores_finite scores_nonempty)
next
  case (4 x xs y ys)
  have "Max (scores (x # xs) (y # ys)) =
      max (Max ((+) (calculateMatchScore x y) ` scores xs ys))
        (max (Max ((+) gap_penalty ` scores xs (y # ys)))
             (Max ((+) gap_penalty ` scores (x # xs) ys)))"
    unfolding scores_simps(4)
    by (simp add: Max_Un scores_finite scores_nonempty)
  then show ?case
    using 4 by (simp add: Max_shift scores_finite scores_nonempty)
qed

lemma is_alignment_rev: "is_alignment a b al \<Longrightarrow> is_alignment (rev a) (rev b) (rev al)"
  by (auto simp: is_alignment_def strip_rev simp flip: rev_map)

lemma alignment_score_rev: "alignment_score (rev al) = alignment_score al"
  by (simp add: alignment_score_def rev_map [symmetric])

lemma scores_rev_subset: "scores a b \<subseteq> scores (rev a) (rev b)"
proof
  fix v assume "v \<in> scores a b"
  then obtain al where al: "is_alignment a b al" "v = alignment_score al"
    by (auto simp: scores_def set_all_alignments)
  then have "is_alignment (rev a) (rev b) (rev al)" "v = alignment_score (rev al)"
    by (simp_all add: is_alignment_rev alignment_score_rev)
  then show "v \<in> scores (rev a) (rev b)"
    unfolding scores_def set_map set_all_alignments by blast
qed

lemma scores_rev: "scores (rev a) (rev b) = scores a b"
  using scores_rev_subset [of a b] scores_rev_subset [of "rev a" "rev b"] by simp

lemma opt_score_Nil_left: "opt_score [] ys = int (length ys) * gap_penalty"
  by (induction ys) (simp_all add: algebra_simps)

lemma opt_score_Nil_right: "opt_score xs [] = int (length xs) * gap_penalty"
  by (induction xs) (simp_all add: algebra_simps)

lemma rev_take_Suc: "i < length a \<Longrightarrow> rev (take (Suc i) a) = a ! i # rev (take i a)"
  by (simp add: take_Suc_conv_app_nth)

lemma nw_score_opt:
  "i \<le> length a \<Longrightarrow> j \<le> length b \<Longrightarrow>
   nw_score a b i j = opt_score (rev (take i a)) (rev (take j b))"
proof (induction a b i j rule: nw_score.induct)
  case (1 a b j)
  then show ?case by (simp add: opt_score_Nil_left)
next
  case (2 a b i)
  then show ?case by (simp add: opt_score_Nil_right)
next
  case (3 a b i j)
  then have ij: "i < length a" "j < length b" by simp_all
  show ?case
    using 3 ij by (simp add: rev_take_Suc algebra_simps)
qed

lemma nw_score_max:
  "nw_score a b (length a) (length b) = Max (set (map alignment_score (all_alignments a b)))"
proof -
  have "nw_score a b (length a) (length b) = opt_score (rev a) (rev b)"
    by (simp add: nw_score_opt)
  also have "\<dots> = Max (scores (rev a) (rev b))"
    by (simp add: Max_scores)
  also have "\<dots> = Max (scores a b)"
    by (simp add: scores_rev)
  finally show ?thesis by (simp add: scores_def)
qed

subsection \<open>The traceback\<close>

text \<open>
  On the filled table the traceback never reaches its last branch with \<open>j = 0\<close>; it
  returns the two rows of a global alignment whose score is the table entry it started
  from.
\<close>

lemma gapped_copy_filter:
  "gapped_copy s t \<Longrightarrow> filter (\<lambda>c. c \<noteq> CHR ''-'') t = filter (\<lambda>c. c \<noteq> CHR ''-'') s"
proof (induction s t rule: gapped_copy.induct)
  case (1 t)
  then show ?case by (induction t) auto
qed auto

lemma reconstructAlignment_done:
  "i = 0 \<Longrightarrow> j = 0 \<Longrightarrow> reconstructAlignment dp seq1 seq2 i j acc1 acc2 = Some (acc1, acc2)"
  by (subst reconstructAlignment.simps) simp

lemma reconstructAlignment_diag:
  "i > 0 \<and> j > 0 \<and>
     dp ! i ! j = dp ! (i - 1) ! (j - 1) + calculateMatchScore (seq1 ! (i - 1)) (seq2 ! (j - 1)) \<Longrightarrow>
   reconstructAlignment dp seq1 seq2 i j acc1 acc2 =
   reconstructAlignment dp seq1 seq2 (i - 1) (j - 1)
     (seq1 ! (i - 1) # acc1) (seq2 ! (j - 1) # acc2)"
  by (subst reconstructAlignment.simps) auto

lemma reconstructAlignment_up:
  "\<not> (i > 0 \<and> j > 0 \<and>
     dp ! i ! j = dp ! (i - 1) ! (j - 1) + calculateMatchScore (seq1 ! (i - 1)) (seq2 ! (j - 1))) \<Longrightarrow>
   i > 0 \<and> dp ! i ! j = dp ! (i - 1) ! j + gap_penalty \<Longrightarrow>
   reconstructAlignment dp seq1 seq2 i j acc1 acc2 =
   reconstructAlignment dp seq1 seq2 (i - 1) j (seq1 ! (i - 1) # acc1) (CHR ''-'' # acc2)"
  by (subst reconstructAlignment.simps) auto

lemma reconstructAlignment_left:
  "\<not> (i > 0 \<and> j > 0 \<and>
     dp ! i ! j = dp ! (i - 1) ! (j - 1) + calculateMatchScore (seq1 ! (i - 1)) (seq2 ! (j - 1))) \<Longrightarrow>
   \<not> (i > 0 \<and> dp ! i ! j = dp ! (i - 1) ! j + gap_penalty) \<Longrightarrow> j > 0 \<Longrightarrow>
   reconstructAlignment dp seq1 seq2 i j acc1 acc2 =
   reconstructAlignment dp seq1 seq2 i (j - 1) (CHR ''-'' # acc1) (seq2 ! (j - 1) # acc2)"
  by (subst reconstructAlignment.simps) auto

lemma is_alignment_snoc:
  assumes "is_alignment xs ys al"
  shows "is_alignment (xs @ [x]) (ys @ [y]) (al @ [(Some x, Some y)])"
    and "is_alignment (xs @ [x]) ys (al @ [(Some x, None)])"
    and "is_alignment xs (ys @ [y]) (al @ [(None, Some y)])"
  using assms by (simp_all add: is_alignment_def)

lemma alignment_score_snoc:
  "alignment_score (al @ [c]) = alignment_score al + column_score c"
  by (simp add: alignment_score_def)

lemma rows_snoc:
  "row1 (al @ [(Some x, q)]) = row1 al @ [x]" "row1 (al @ [(None, q)]) = row1 al @ [CHR ''-'']"
  "row2 (al @ [(p, Some y)]) = row2 al @ [y]" "row2 (al @ [(p, None)]) = row2 al @ [CHR ''-'']"
  by (simp_all add: row1_def row2_def)

lemma take_snoc: "0 < i \<Longrightarrow> i \<le> length xs \<Longrightarrow> take i xs = take (i - 1) xs @ [xs ! (i - 1)]"
  by (cases i) (simp_all add: take_Suc_conv_app_nth)

lemma reconstructAlignment_columns:
  assumes "dp = nw_table a b" "i \<le> length a" "j \<le> length b"
  shows "\<exists>al. is_alignment (take i a) (take j b) al \<and>
           reconstructAlignment dp a b i j acc1 acc2 = Some (row1 al @ acc1, row2 al @ acc2) \<and>
           alignment_score al = nw_score a b i j"
  using assms
proof (induction dp a b i j acc1 acc2 rule: reconstructAlignment.induct)
  case (1 dp seq1 seq2 i j acc1 acc2)
  note dp = \<open>dp = nw_table seq1 seq2\<close>
  have le: "i - 1 \<le> length seq1" "j - 1 \<le> length seq2" "i \<le> length seq1" "j \<le> length seq2"
    using "1.prems" by simp_all
  have tab: "\<And>x y. x \<le> i \<Longrightarrow> y \<le> j \<Longrightarrow> dp ! x ! y = nw_score seq1 seq2 x y"
    using "1.prems" by (simp add: nw_table_correct)
  show ?case
  proof (cases "i > 0 \<or> j > 0")
    case False
    then have "is_alignment (take i seq1) (take j seq2) []"
      "reconstructAlignment dp seq1 seq2 i j acc1 acc2 = Some (row1 [] @ acc1, row2 [] @ acc2)"
      "alignment_score [] = nw_score seq1 seq2 i j"
      by (simp_all add: reconstructAlignment_done is_alignment_def row1_def row2_def
          alignment_score_def)
    then show ?thesis by blast
  next
    case loop: True
    let ?diag = "i > 0 \<and> j > 0 \<and> dp ! i ! j =
        dp ! (i - 1) ! (j - 1) + calculateMatchScore (seq1 ! (i - 1)) (seq2 ! (j - 1))"
    let ?up = "i > 0 \<and> dp ! i ! j = dp ! (i - 1) ! j + gap_penalty"
    show ?thesis
    proof (cases ?diag)
      case True
      then have ij: "i > 0" "j > 0" by auto
      from "1.IH"(1) [OF loop True dp le(1,2)] obtain al where
        a: "is_alignment (take (i - 1) seq1) (take (j - 1) seq2) al"
        and r: "reconstructAlignment dp seq1 seq2 (i - 1) (j - 1)
              (seq1 ! (i - 1) # acc1) (seq2 ! (j - 1) # acc2)
            = Some (row1 al @ seq1 ! (i - 1) # acc1, row2 al @ seq2 ! (j - 1) # acc2)"
        and s: "alignment_score al = nw_score seq1 seq2 (i - 1) (j - 1)"
        by blast
      let ?al = "al @ [(Some (seq1 ! (i - 1)), Some (seq2 ! (j - 1)))]"
      have "is_alignment (take i seq1) (take j seq2) ?al"
        unfolding take_snoc [OF ij(1) le(3)] take_snoc [OF ij(2) le(4)]
        using a by (rule is_alignment_snoc)
      moreover have "reconstructAlignment dp seq1 seq2 i j acc1 acc2 =
          Some (row1 ?al @ acc1, row2 ?al @ acc2)"
        using r reconstructAlignment_diag [OF True] by (simp add: rows_snoc)
      moreover have "alignment_score ?al = nw_score seq1 seq2 i j"
        using True s tab [of i j] tab [of "i - 1" "j - 1"]
        by (simp add: alignment_score_snoc)
      ultimately show ?thesis by blast
    next
      case nodiag: False
      show ?thesis
      proof (cases ?up)
        case True
        then have i: "i > 0" by auto
        from "1.IH"(2) [OF loop nodiag True dp le(1,4)] obtain al where
          a: "is_alignment (take (i - 1) seq1) (take j seq2) al"
          and r: "reconstructAlignment dp seq1 seq2 (i - 1) j
                (seq1 ! (i - 1) # acc1) (CHR ''-'' # acc2)
              = Some (row1 al @ seq1 ! (i - 1) # acc1, row2 al @ CHR ''-'' # acc2)"
          and s: "alignment_score al = nw_score seq1 seq2 (i - 1) j"
          by blast
        let ?al = "al @ [(Some (seq1 ! (i - 1)), None)]"
        have "is_alignment (take i seq1) (take j seq2) ?al"
          unfolding take_snoc [OF i le(3)]
          using a by (rule is_alignment_snoc)
        moreover have "reconstructAlignment dp seq1 seq2 i j acc1 acc2 =
            Some (row1 ?al @ acc1, row2 ?al @ acc2)"
          using r reconstructAlignment_up [OF nodiag True] by (simp add: rows_snoc)
        moreover have "alignment_score ?al = nw_score seq1 seq2 i j"
          using True s tab [of i j] tab [of "i - 1" j]
          by (simp add: alignment_score_snoc)
        ultimately show ?thesis by blast
      next
        case noup: False
        have j: "j > 0"
        proof (rule ccontr)
          assume "\<not> j > 0"
          then have j0: "j = 0" by simp
          with loop obtain i' where i': "i = Suc i'" by (cases i) auto
          have "dp ! i ! j = dp ! (i - 1) ! j + gap_penalty"
            using tab [of i j] tab [of "i - 1" j] j0 i'
            by (simp add: nw_score_col0 algebra_simps)
          with noup i' show False by simp
        qed
        have left: "nw_score seq1 seq2 i j = nw_score seq1 seq2 i (j - 1) + gap_penalty"
        proof (cases i)
          case 0
          with j show ?thesis by (cases j) (simp_all add: algebra_simps)
        next
          case (Suc i')
          obtain j' where j': "j = Suc j'" using j by (cases j) auto
          have "nw_score seq1 seq2 i j \<noteq>
              nw_score seq1 seq2 i' j' + calculateMatchScore (seq1 ! i') (seq2 ! j')"
            using nodiag tab [of i j] tab [of i' j'] Suc j' by simp
          moreover have "nw_score seq1 seq2 i j \<noteq> nw_score seq1 seq2 i' j + gap_penalty"
            using noup tab [of i j] tab [of i' j] Suc by simp
          ultimately show ?thesis
            using nw_score_ge [of seq1 seq2 i' j'] Suc j' by simp
        qed
        from "1.IH"(3) [OF loop nodiag noup j dp le(3,2)] obtain al where
          a: "is_alignment (take i seq1) (take (j - 1) seq2) al"
          and r: "reconstructAlignment dp seq1 seq2 i (j - 1)
                (CHR ''-'' # acc1) (seq2 ! (j - 1) # acc2)
              = Some (row1 al @ CHR ''-'' # acc1, row2 al @ seq2 ! (j - 1) # acc2)"
          and s: "alignment_score al = nw_score seq1 seq2 i (j - 1)"
          by blast
        let ?al = "al @ [(None, Some (seq2 ! (j - 1)))]"
        have "is_alignment (take i seq1) (take j seq2) ?al"
          unfolding take_snoc [OF j le(4)]
          using a by (rule is_alignment_snoc)
        moreover have "reconstructAlignment dp seq1 seq2 i j acc1 acc2 =
            Some (row1 ?al @ acc1, row2 ?al @ acc2)"
          using r reconstructAlignment_left [OF nodiag noup j] by (simp add: rows_snoc)
        moreover have "alignment_score ?al = nw_score seq1 seq2 i j"
          using left s by (simp add: alignment_score_snoc)
        ultimately show ?thesis by blast
      qed
    qed
  qed
qed

lemma gapped_copy_row1: "gapped_copy (strip (map fst al)) (row1 al)"
proof (induction al)
  case Nil
  then show ?case by (simp add: row1_def)
next
  case (Cons c al)
  obtain p q where c: "c = (p, q)" by (cases c)
  show ?case
  proof (cases p)
    case None
    with Cons c show ?thesis
      by (cases "strip (map fst al)") (simp_all add: row1_def)
  next
    case (Some x)
    with Cons c show ?thesis by (simp add: row1_def)
  qed
qed

lemma gapped_copy_row2: "gapped_copy (strip (map snd al)) (row2 al)"
proof (induction al)
  case Nil
  then show ?case by (simp add: row2_def)
next
  case (Cons c al)
  obtain p q where c: "c = (p, q)" by (cases c)
  show ?case
  proof (cases q)
    case None
    with Cons c show ?thesis
      by (cases "strip (map snd al)") (simp_all add: row2_def)
  next
    case (Some x)
    with Cons c show ?thesis by (simp add: row2_def)
  qed
qed

lemma pairwiseAlignment_optimal:
  "\<exists>al. is_alignment a b al \<and> pairwiseAlignment a b = Some (row1 al, row2 al) \<and>
        alignment_score al = Max (set (map alignment_score (all_alignments a b)))"
  using reconstructAlignment_columns [of "nw_table a b" a b "length a" "length b" "[]" "[]"]
  by (simp add: pairwiseAlignment_def Let_def nw_score_max)

lemma pairwiseAlignment_total:
  obtains alignedA alignedB where
    "pairwiseAlignment strA strB = Some (alignedA, alignedB)"
    "length alignedA = length alignedB"
    "gapped_copy strA alignedA" "gapped_copy strB alignedB"
proof -
  obtain al where al: "is_alignment strA strB al"
    and p: "pairwiseAlignment strA strB = Some (row1 al, row2 al)"
    using pairwiseAlignment_optimal by blast
  have l: "length (row1 al) = length (row2 al)"
    by (simp add: row1_def row2_def)
  have g: "gapped_copy strA (row1 al)" "gapped_copy strB (row2 al)"
    using gapped_copy_row1 [of al] gapped_copy_row2 [of al] al
    by (simp_all add: is_alignment_def)
  show ?thesis
    using p l g by (rule that)
qed

subsection \<open>The distance estimator\<close>

lemma fold_count:
  "fold (\<lambda>i (matches::nat). if P i then matches + 1 else matches) xs c = c + length (filter P xs)"
  by (induction xs arbitrary: c) auto

lemma length_filter_upt: "length (filter P [0..<k]) = card {i. i < k \<and> P i}"
proof -
  have s: "set (filter P [0..<k]) = {i. i < k \<and> P i}"
    by auto
  have "card (set (filter P [0..<k])) = length (filter P [0..<k])"
    by (rule distinct_card) simp
  then show ?thesis
    unfolding s by simp
qed

lemma positional_matches_le: "positional_matches a b \<le> min (length a) (length b)"
proof -
  define n where "n = min (length a) (length b)"
  have "card {i. i < n \<and> toupper (a ! i) = toupper (b ! i)} \<le> card {i. i < n}"
    by (intro card_mono) auto
  then show ?thesis
    unfolding positional_matches_def n_def [symmetric] by simp
qed

lemma calculateSequenceDistance_nonempty:
  assumes "seqA \<noteq> []" "seqB \<noteq> []"
  shows "calculateSequenceDistance seqA seqB =
     1 - real (positional_matches seqA seqB) / real (max (length seqA) (length seqB))"
proof -
  have m: "min (length seqA) (length seqB) \<noteq> 0"
    using assms by (simp add: min_def)
  define n where "n = min (length seqA) (length seqB)"
  show ?thesis
    using assms m
    unfolding calculateSequenceDistance_def Let_def fold_count length_filter_upt
      positional_matches_def n_def [symmetric]
    by simp
qed

lemma calculateSequenceDistance_empty:
  "seqA = [] \<or> seqB = [] \<Longrightarrow> calculateSequenceDistance seqA seqB = 1"
  by (auto simp: calculateSequenceDistance_def)

lemma calculateSequenceDistance_range:
  "0 \<le> calculateSequenceDistance seqA seqB \<and> calculateSequenceDistance seqA seqB \<le> 1"
proof (cases "seqA = [] \<or> seqB = []")
  case True
  then show ?thesis by (simp add: calculateSequenceDistance_empty)
next
  case False
  let ?m = "positional_matches seqA seqB" and ?M = "max (length seqA) (length seqB)"
  have "?m \<le> ?M" using positional_matches_le [of seqA seqB] by (auto simp: le_max_iff_disj)
  moreover have "0 < ?M" using False by (simp add: max_def)
  ultimately have "real ?m / real ?M \<le> 1" "0 \<le> real ?m / real ?M"
    by simp_all
  then show ?thesis
    using False by (simp add: calculateSequenceDistance_nonempty)
qed

lemma positional_matches_sym: "positional_matches a b = positional_matches b a"
  unfolding positional_matches_def
  by (rule arg_cong [where f = card]) (auto simp: min.commute)

lemma calculateSequenceDistance_sym:
  "calculateSequenceDistance a b = calculateSequenceDistance b a"
proof (cases "a = [] \<or> b = []")
  case True
  then show ?thesis by (auto simp: calculateSequenceDistance_empty)
next
  case False
  then show ?thesis
    by (simp add: calculateSequenceDistance_nonempty positional_matches_sym max.commute)
qed

lemma calculateSequenceDistance_self:
  "a \<noteq> [] \<Longrightarrow> calculateSequenceDistance a a = 0"
  by (simp add: calculateSequenceDistance_nonempty positional_matches_def)

subsection \<open>The distance matrix\<close>

lemma nth_list_update2:
  "i < length M \<Longrightarrow> j < length (M ! i) \<Longrightarrow>
   M[i := (M ! i)[j := v]] ! x ! y = (if x = i \<and> y = j then v else M ! x ! y)"
  by (auto simp: nth_list_update)

lemma rows_update2:
  "\<forall>row\<in>set M. length row = n \<Longrightarrow> i < length M \<Longrightarrow>
   \<forall>row\<in>set (M[i := (M ! i)[j := v]]). length row = n"
  by (auto dest!: set_update_subset_insert [THEN subsetD])

lemma dm_inv_step:
  assumes inv: "dm_inv seqs i j M" and ij: "i < j" "j < length seqs"
  shows "dm_inv seqs i (Suc j) (distance_cell seqs i j M)"
proof -
  let ?n = "length seqs"
  let ?d = "dist_of seqs i j"
  let ?M1 = "M[j := (M ! j)[i := ?d]]"
  let ?M2 = "?M1[i := (?M1 ! i)[j := ?d]]"
  have len: "length M = ?n" and rows: "\<forall>row\<in>set M. length row = ?n"
    using inv by (simp_all add: dm_inv_def)
  have i: "i < ?n" using ij by simp
  have rows1: "\<forall>row\<in>set ?M1. length row = ?n"
    using rows ij len by (intro rows_update2) simp_all
  have rows2: "\<forall>row\<in>set ?M2. length row = ?n"
    using rows_update2 [OF rows1, of i j ?d] i len by simp
  have r: "length (M ! j) = ?n" "length (?M1 ! i) = ?n"
    using rows rows1 len ij i by simp_all
  have v1: "?M1 ! x ! y = (if x = j \<and> y = i then ?d else M ! x ! y)" for x y
    using len ij i r by (intro nth_list_update2) simp_all
  have v2: "?M2 ! x ! y = (if x = i \<and> y = j then ?d else ?M1 ! x ! y)" for x y
    using len ij i r by (intro nth_list_update2) simp_all
  have vals: "?M2 ! x ! y =
          (if x < y \<and> (x < i \<or> (x = i \<and> y < Suc j)) then dist_of seqs x y
           else if y < x \<and> (y < i \<or> (y = i \<and> x < Suc j)) then dist_of seqs y x
           else 0)" if "x < ?n" "y < ?n" for x y
  proof -
    have old: "M ! x ! y =
          (if x < y \<and> (x < i \<or> (x = i \<and> y < j)) then dist_of seqs x y
           else if y < x \<and> (y < i \<or> (y = i \<and> x < j)) then dist_of seqs y x
           else 0)"
      using inv that by (simp add: dm_inv_def)
    show ?thesis
      unfolding v2 v1 old using ij by (auto simp: less_Suc_eq)
  qed
  have "dm_inv seqs i (Suc j) ?M2"
    unfolding dm_inv_def using len rows2 vals by simp
  then show ?thesis
    by (simp add: distance_cell_def Let_def dist_of_def)
qed

lemma dm_inv_next_row:
  "dm_inv seqs i (length seqs) M \<Longrightarrow> dm_inv seqs (Suc i) (Suc i + 1) M"
  unfolding dm_inv_def
  by (intro conjI allI impI; (elim conjE)?) (simp_all add: less_Suc_eq, auto)

lemma dm_inv_row:
  assumes "dm_inv seqs i (i + 1) M" "i < length seqs"
  shows "dm_inv seqs (Suc i) (Suc i + 1)
     (fold (distance_cell seqs i) [i + 1..<length seqs] M)"
proof -
  have "dm_inv seqs i (length seqs)
     (fold (distance_cell seqs i) [i + 1..<length seqs] M)"
  proof (rule fold_upt_invariant [where P = "dm_inv seqs i"])
    show "i + 1 \<le> length seqs" using assms by simp
    show "dm_inv seqs i (i + 1) M" by (rule assms)
    show "dm_inv seqs i (Suc j) (distance_cell seqs i j s)"
      if "i + 1 \<le> j" "j < length seqs" "dm_inv seqs i j s" for j s
      using that by (intro dm_inv_step) simp_all
  qed
  then show ?thesis by (rule dm_inv_next_row)
qed

lemma calculateDistanceMatrix_inv:
  "dm_inv seqs (length seqs) (length seqs + 1) (calculateDistanceMatrix seqs)"
proof -
  let ?n = "length seqs"
  have init: "dm_inv seqs 0 (0 + 1) (replicate ?n (replicate ?n 0))"
    by (auto simp: dm_inv_def)
  show ?thesis
    unfolding calculateDistanceMatrix_def Let_def
  proof (rule fold_upt_invariant [where P = "\<lambda>i. dm_inv seqs i (i + 1)"])
    show "0 \<le> ?n" by simp
    show "dm_inv seqs 0 (0 + 1) (replicate ?n (replicate ?n 0))" by (rule init)
    show "dm_inv seqs (Suc i) (Suc i + 1)
        (fold (distance_cell seqs i) [i + 1..<length seqs] s)"
      if "0 \<le> i" "i < ?n" "dm_inv seqs i (i + 1) s" for i s
      using that by (intro dm_inv_row) simp_all
  qed
qed

lemma calculateDistanceMatrix_nth:
  assumes "i < length seqs" "j < length seqs"
  shows "calculateDistanceMatrix seqs ! i ! j =
     (if i = j then 0
      else calculateSequenceDistance (sequence (seqs ! i)) (sequence (seqs ! j)))"
proof -
  have "calculateDistanceMatrix seqs ! i ! j =
      (if i < j then dist_of seqs i j else if j < i then dist_of seqs j i else 0)"
    using calculateDistanceMatrix_inv [of seqs] assms
    by (simp add: dm_inv_def)
  then show ?thesis
    using calculateSequenceDistance_sym by (auto simp: dist_of_def)
qed

subsection \<open>Leaf profiles\<close>

lemma cp_inv_step:
  assumes "cp_inv s k profile" "k < length s"
  shows "cp_inv s (Suc k) (createProfile_step s k profile)"
  using assms
  unfolding cp_inv_def createProfile_step_def Let_def one_hot_def
  by (auto simp: nth_list_update less_Suc_eq)

lemma createProfile_inv: "cp_inv s (length s) (createProfile s)"
  unfolding createProfile_def Let_def
proof -
  let ?p0 = "\<lparr>frequencies = replicate (length s) (replicate ALPHABET_SIZE 0),
               gap_frequencies = replicate (length s) 0,
               length_p = length s, num_sequences = 1\<rparr>"
  have "cp_inv s (length s) (fold (createProfile_step s) [0..<length s] ?p0)"
    by (rule fold_upt_invariant [where P = "cp_inv s"])
      (simp_all add: cp_inv_def cp_inv_step [unfolded cp_inv_def])
  then show "cp_inv s (length s) (fold (createProfile_step s) [0..<length_p ?p0] ?p0)"
    by simp
qed

lemma createProfile_frequencies: "frequencies (createProfile s) = map one_hot s"
  using createProfile_inv [of s]
  by (intro nth_equalityI) (simp_all add: cp_inv_def)

lemma createProfile_gap_frequencies:
  "gap_frequencies (createProfile s) = map (\<lambda>c. if c = CHR ''-'' then 1 else 0) s"
  using createProfile_inv [of s]
  by (intro nth_equalityI) (simp_all add: cp_inv_def)

lemma createProfile_fields:
  "length_p (createProfile s) = length s" "num_sequences (createProfile s) = 1"
  using createProfile_inv [of s] by (simp_all add: cp_inv_def)

lemma string_find_None: "string_find xs c = None \<longleftrightarrow> c \<notin> set xs"
  by (induction xs) auto

lemma getAlphabetIndex_unknown:
  "getAlphabetIndex c = - 1 \<longleftrightarrow> toupper c \<notin> {CHR ''A'', CHR ''T'', CHR ''C'', CHR ''G''}"
proof -
  have "string_find DNA_ALPHABET (toupper c) = None \<longleftrightarrow>
      toupper c \<notin> {CHR ''A'', CHR ''T'', CHR ''C'', CHR ''G''}"
    unfolding string_find_None by (auto simp: DNA_ALPHABET_def)
  then show ?thesis
    by (auto simp: getAlphabetIndex_def Let_def split: option.splits)
qed

lemma string_find_Some_lt: "string_find xs c = Some k \<Longrightarrow> k < length xs"
  by (induction xs arbitrary: k) (auto split: if_splits)

lemma getAlphabetIndex_range:
  assumes "getAlphabetIndex c \<noteq> - 1"
  shows "0 \<le> getAlphabetIndex c \<and> nat (getAlphabetIndex c) < ALPHABET_SIZE"
proof (cases "string_find DNA_ALPHABET (toupper c)")
  case None
  then show ?thesis using assms by (simp add: getAlphabetIndex_def)
next
  case (Some k)
  then have "k < length DNA_ALPHABET" by (rule string_find_Some_lt)
  then have "k < ALPHABET_SIZE" by (simp add: DNA_ALPHABET_def ALPHABET_SIZE_def)
  then show ?thesis using Some by (simp add: getAlphabetIndex_def)
qed

lemma sum_list_replicate_zero: "sum_list (replicate n (0::real)) = 0"
  by (induction n) simp_all

lemma sum_list_update_zero:
  "k < n \<Longrightarrow> sum_list ((replicate n (0::real))[k := 1]) = 1"
proof (induction n arbitrary: k)
  case 0
  then show ?case by simp
next
  case (Suc n)
  then show ?case
    by (cases k) (simp_all add: sum_list_replicate_zero)
qed

lemma sum_list_one_hot:
  "sum_list (one_hot c) = (if c \<noteq> CHR ''-'' \<and> getAlphabetIndex c \<noteq> - 1 then 1 else 0)"
proof (cases "c \<noteq> CHR ''-'' \<and> getAlphabetIndex c \<noteq> - 1")
  case True
  then show ?thesis
    using getAlphabetIndex_range [of c]
    by (simp add: one_hot_def sum_list_update_zero)
next
  case False
  then show ?thesis
    by (auto simp: one_hot_def sum_list_replicate_zero)
qed

lemma length_one_hot: "length (one_hot c) = ALPHABET_SIZE"
  by (simp add: one_hot_def)

lemma createProfile_wf: "wf_profile (createProfile s)"
  by (simp add: wf_profile_def createProfile_frequencies createProfile_gap_frequencies
      createProfile_fields length_one_hot)

lemma createProfile_mass:
  assumes "pos < length s"
  shows "column_mass (createProfile s) pos =
     (if s ! pos = CHR ''-'' \<or> toupper (s ! pos) \<in> {CHR ''A'', CHR ''T'', CHR ''C'', CHR ''G''}
      then 1 else 0)"
  using assms getAlphabetIndex_unknown [of "s ! pos"]
  by (auto simp: column_mass_def createProfile_frequencies createProfile_gap_frequencies
      sum_list_one_hot)

subsection \<open>The guide tree\<close>

text \<open>
  The closest-pair search always ends on two distinct positions inside the node list, so
  a merge never indexes or erases out of range, and each merge keeps the leaf count and
  trades two active nodes for one new internal node.
\<close>

lemma find_closest_inner:
  assumes "pair_ok (length nodes) st" "i < length nodes"
  shows "pair_ok (length nodes)
     (fold (\<lambda>j (min_i, min_j, min_distance).
         let dist = average_linkage dm (nodes ! i) (nodes ! j)
         in if dist < min_distance then (i, j, dist) else (min_i, min_j, min_distance))
       [i + 1..<length nodes] st)"
proof (rule fold_upt_invariant [where P = "\<lambda>j. pair_ok (length nodes)"])
  show "i + 1 \<le> length nodes" using assms by simp
  show "pair_ok (length nodes) st" by (rule assms)
  show "pair_ok (length nodes)
      (case s of (min_i, min_j, min_distance) \<Rightarrow>
         let dist = average_linkage dm (nodes ! i) (nodes ! j)
         in if dist < min_distance then (i, j, dist) else (min_i, min_j, min_distance))"
    if "i + 1 \<le> j" "j < length nodes" "pair_ok (length nodes) s" for j s
    using that by (auto simp: pair_ok_def Let_def split: prod.splits)
qed

lemma find_closest_range:
  assumes "1 < length nodes"
  shows "pair_ok (length nodes) (find_closest dm nodes)"
  unfolding find_closest_def
proof (rule fold_upt_invariant [where P = "\<lambda>i. pair_ok (length nodes)"])
  show "0 \<le> length nodes" by simp
  show "pair_ok (length nodes) (0, 1, DBL_MAX)"
    using assms by (simp add: pair_ok_def)
  show "pair_ok (length nodes)
      (fold (\<lambda>j (min_i, min_j, min_distance).
          let dist = average_linkage dm (nodes ! i) (nodes ! j)
          in if dist < min_distance then (i, j, dist) else (min_i, min_j, min_distance))
        [i + 1..<length nodes] s)"
    if "0 \<le> i" "i < length nodes" "pair_ok (length nodes) s" for i s
    using that by (intro find_closest_inner)
qed

lemma sum_list_erase:
  assumes "k < length xs"
  shows "sum_list (map f (take k xs @ drop (Suc k) xs)) + f (xs ! k) = (sum_list (map f xs) :: nat)"
proof -
  have "sum_list (map f xs) = sum_list (map f (take k xs @ xs ! k # drop (Suc k) xs))"
    using id_take_nth_drop [OF assms] by simp
  then show ?thesis by simp
qed

lemma length_erase: "k < length xs \<Longrightarrow> Suc (length (take k xs @ drop (Suc k) xs)) = length xs"
  by simp

lemma set_erase: "set (take k xs @ drop (Suc k) xs) \<subseteq> set xs"
  by (auto dest: in_set_takeD in_set_dropD)

lemma nth_erase_lt: "i < k \<Longrightarrow> k < length xs \<Longrightarrow> (take k xs @ drop (Suc k) xs) ! i = xs ! i"
  by (simp add: nth_append)

lemma merge_step_result:
  assumes n: "1 < length nodes"
  obtains min_i min_j min_distance where
    "min_i < min_j" "min_j < length nodes"
    "merge_step dm nodes = Some
       (take min_i (take min_j nodes @ drop (Suc min_j) nodes)
        @ drop (Suc min_i) (take min_j nodes @ drop (Suc min_j) nodes)
        @ [TreeNode (- 1) (min_distance / 2) (Some (nodes ! min_i)) (Some (nodes ! min_j))
             (sequences (nodes ! min_i) @ sequences (nodes ! min_j))])"
proof -
  obtain min_i min_j min_distance where fc: "find_closest dm nodes = (min_i, min_j, min_distance)"
    by (cases "find_closest dm nodes") auto
  have r: "min_i < min_j" "min_j < length nodes"
    using find_closest_range [OF n, of dm] fc by (simp_all add: pair_ok_def)
  have "merge_step dm nodes = Some
       (take min_i (take min_j nodes @ drop (Suc min_j) nodes)
        @ drop (Suc min_i) (take min_j nodes @ drop (Suc min_j) nodes)
        @ [TreeNode (- 1) (min_distance / 2) (Some (nodes ! min_i)) (Some (nodes ! min_j))
             (sequences (nodes ! min_i) @ sequences (nodes ! min_j))])"
    using r by (simp add: merge_step_def fc erase_def Let_def)
  with r show ?thesis by (rule that)
qed

lemma merge_step_forest:
  assumes n: "1 < length nodes" and f: "forest N nodes"
  shows "\<exists>nodes'. merge_step dm nodes = Some nodes' \<and> forest N nodes' \<and>
           Suc (length nodes') = length nodes"
proof -
  obtain i j d where ij: "i < j" "j < length nodes"
    and ms: "merge_step dm nodes = Some
       (take i (take j nodes @ drop (Suc j) nodes)
        @ drop (Suc i) (take j nodes @ drop (Suc j) nodes)
        @ [TreeNode (- 1) (d / 2) (Some (nodes ! i)) (Some (nodes ! j))
             (sequences (nodes ! i) @ sequences (nodes ! j))])"
    using merge_step_result [OF n, of dm] by metis
  define e1 where "e1 = take j nodes @ drop (Suc j) nodes"
  define e2 where "e2 = take i e1 @ drop (Suc i) e1"
  define new where "new = TreeNode (- 1) (d / 2) (Some (nodes ! i)) (Some (nodes ! j))
             (sequences (nodes ! i) @ sequences (nodes ! j))"
  have ms': "merge_step dm nodes = Some (e2 @ [new])"
    unfolding ms e2_def e1_def new_def by simp
  have l1: "Suc (length e1) = length nodes"
    unfolding e1_def using ij(2) by (rule length_erase)
  have i1: "i < length e1" using ij l1 by linarith
  have l2: "Suc (length e2) = length e1"
    unfolding e2_def using i1 by (rule length_erase)
  have e1i: "e1 ! i = nodes ! i"
    unfolding e1_def using ij by (rule nth_erase_lt)
  have s1: "sum_list (map g e1) + g (nodes ! j) = sum_list (map g nodes)" for g :: "TreeNode \<Rightarrow> nat"
    unfolding e1_def using ij(2) by (rule sum_list_erase)
  have s2: "sum_list (map g e2) + g (nodes ! i) = sum_list (map g e1)" for g :: "TreeNode \<Rightarrow> nat"
    unfolding e2_def using sum_list_erase [OF i1, of g] e1i by simp
  have s: "sum_list (map g e2) + g (nodes ! i) + g (nodes ! j) = sum_list (map g nodes)"
    for g :: "TreeNode \<Rightarrow> nat"
    using s1 [of g] s2 [of g] by simp
  have sub: "set e2 \<subseteq> set nodes"
    unfolding e2_def e1_def using set_erase [of i "take j nodes @ drop (Suc j) nodes"] set_erase [of j nodes]
    by blast
  have bin: "\<forall>t\<in>set nodes. is_binary t" using f by (simp add: forest_def)
  have mem: "nodes ! i \<in> set nodes" "nodes ! j \<in> set nodes"
    using ij by simp_all
  have b: "is_binary new" using bin mem by (simp add: new_def)
  have lv: "num_leaves new = num_leaves (nodes ! i) + num_leaves (nodes ! j)"
    by (simp add: new_def)
  have it: "num_internal new = 1 + num_internal (nodes ! i) + num_internal (nodes ! j)"
    by (simp add: new_def)
  have "forest N (e2 @ [new])"
    unfolding forest_def
  proof (intro conjI)
    show "e2 @ [new] \<noteq> []" by simp
    show "\<forall>t\<in>set (e2 @ [new]). is_binary t"
      using sub bin b by auto
    show "sum_list (map num_leaves (e2 @ [new])) = N"
      using s [of num_leaves] f lv by (simp add: forest_def)
    show "sum_list (map num_internal (e2 @ [new])) + length (e2 @ [new]) = N"
      using s [of num_internal] f it l1 l2 by (simp add: forest_def)
  qed
  moreover have "Suc (length (e2 @ [new])) = length nodes"
    using l1 l2 by simp
  ultimately show ?thesis
    using ms' by blast
qed

lemma upgma_loop_forest:
  assumes "forest N nodes"
  shows "\<exists>root. upgma_loop dm nodes = Some [root] \<and> forest N [root]"
  using assms
proof (induction "length nodes" arbitrary: nodes rule: less_induct)
  case less
  show ?case
  proof (cases "1 < length nodes")
    case True
    from merge_step_forest [OF True less.prems, of dm] obtain nodes' where
      m: "merge_step dm nodes = Some nodes'" and f: "forest N nodes'"
      and l: "Suc (length nodes') = length nodes"
      by blast
    have "upgma_loop dm nodes = upgma_loop dm nodes'"
      using True m by (subst upgma_loop.simps) simp
    moreover have "\<exists>root. upgma_loop dm nodes' = Some [root] \<and> forest N [root]"
      using l f by (intro less.hyps) simp_all
    ultimately show ?thesis by simp
  next
    case False
    with less.prems obtain root where r: "nodes = [root]"
      by (cases nodes) (auto simp: forest_def)
    have "upgma_loop dm nodes = Some nodes"
      using False by (subst upgma_loop.simps) simp
    with r less.prems show ?thesis by simp
  qed
qed

lemma leaf_nodes_eq: "leaf_nodes n = map (\<lambda>i. TreeNode (int i) 0 None None [i]) [0..<n]"
proof -
  have "fold (\<lambda>i nodes. nodes @ [TreeNode (int i) 0 None None [i]]) [0..<n] acc
      = acc @ map (\<lambda>i. TreeNode (int i) 0 None None [i]) [0..<n]" for acc
    by (induction n) simp_all
  then show ?thesis by (simp add: leaf_nodes_def)
qed

lemma sum_list_const_one: "sum_list (map (\<lambda>x. Suc 0) xs) = length xs"
  by (induction xs) simp_all

lemma leaf_nodes_forest: "1 \<le> n \<Longrightarrow> forest n (leaf_nodes n)"
  by (simp add: forest_def leaf_nodes_eq comp_def sum_list_const_one)

lemma leaf_nodes_members: "members_below n (leaf_nodes n)"
  by (auto simp: members_below_def leaf_nodes_eq)

lemma merge_step_members:
  assumes n: "1 < length nodes" and m: "members_below N nodes"
    and s: "merge_step dm nodes = Some nodes'"
  shows "members_below N nodes'"
proof -
  obtain i j d where ij: "i < j" "j < length nodes"
    and ms: "merge_step dm nodes = Some
       (take i (take j nodes @ drop (Suc j) nodes)
        @ drop (Suc i) (take j nodes @ drop (Suc j) nodes)
        @ [TreeNode (- 1) (d / 2) (Some (nodes ! i)) (Some (nodes ! j))
             (sequences (nodes ! i) @ sequences (nodes ! j))])"
    using merge_step_result [OF n, of dm] by metis
  define e1 where "e1 = take j nodes @ drop (Suc j) nodes"
  define e2 where "e2 = take i e1 @ drop (Suc i) e1"
  define new where "new = TreeNode (- 1) (d / 2) (Some (nodes ! i)) (Some (nodes ! j))
             (sequences (nodes ! i) @ sequences (nodes ! j))"
  have eq: "nodes' = e2 @ [new]"
    using s ms by (simp add: e2_def e1_def new_def)
  have sub: "set e2 \<subseteq> set nodes"
    unfolding e2_def e1_def
    using set_erase [of i "take j nodes @ drop (Suc j) nodes"] set_erase [of j nodes]
    by blast
  have mem: "nodes ! i \<in> set nodes" "nodes ! j \<in> set nodes"
    using ij by simp_all
  have "\<forall>s\<in>set (sequences new). s < N"
    using m mem by (auto simp: members_below_def new_def)
  then show ?thesis
    using m sub unfolding eq members_below_def by auto
qed

lemma buildGuideTree_forest:
  assumes "1 \<le> length seqs"
  shows "\<exists>root. buildGuideTree seqs distance_matrix = Some (Some root) \<and>
           upgma_loop distance_matrix (leaf_nodes (length seqs)) = Some [root] \<and>
           forest (length seqs) [root]"
proof -
  from upgma_loop_forest [OF leaf_nodes_forest [OF assms], of distance_matrix]
  obtain root where u: "upgma_loop distance_matrix (leaf_nodes (length seqs)) = Some [root]"
    and f: "forest (length seqs) [root]"
    by blast
  have "buildGuideTree seqs distance_matrix = Some (Some root)"
    by (simp add: buildGuideTree_def u)
  with u f show ?thesis by blast
qed

subsection \<open>Merging profiles\<close>

text \<open>
  The merge loop in closed form: the mass of each merged column is the weighted mass of
  the source columns that the consensus alignment places there, divided by the new
  sequence count.
\<close>

lemma upt4: "[0..<ALPHABET_SIZE] = [0, 1, 2, 3]"
  unfolding ALPHABET_SIZE_def by code_simp

lemma row4:
  assumes "length (row :: real list) = ALPHABET_SIZE"
  obtains r0 r1 r2 r3 where "row = [r0, r1, r2, r3]"
proof -
  from assms have "length row = Suc (Suc (Suc (Suc 0)))"
    by (simp add: ALPHABET_SIZE_def)
  then show ?thesis
    by (auto simp: length_Suc_conv intro: that)
qed

lemma wf_profile_row:
  "wf_profile p \<Longrightarrow> pos < length_p p \<Longrightarrow> length (frequencies p ! pos) = ALPHABET_SIZE"
  by (simp add: wf_profile_def)

lemma add_contribution_props:
  assumes c: "wf_profile c" "pos < length_p c" and s: "wf_profile src" "sp < length_p src"
  shows "wf_profile (add_contribution c pos src sp)"
    and "length_p (add_contribution c pos src sp) = length_p c"
    and "num_sequences (add_contribution c pos src sp) = num_sequences c"
    and "column_mass (add_contribution c pos src sp) pos =
           column_mass c pos + column_mass src sp * real (num_sequences src)"
    and "q \<noteq> pos \<Longrightarrow> column_mass (add_contribution c pos src sp) q = column_mass c q"
proof -
  obtain r0 r1 r2 r3 where r: "frequencies c ! pos = [r0, r1, r2, r3]"
    using wf_profile_row [OF c] by (rule row4)
  obtain s0 s1 s2 s3 where sr: "frequencies src ! sp = [s0, s1, s2, s3]"
    using wf_profile_row [OF s] by (rule row4)
  have lp: "pos < length (frequencies c)" "pos < length (gap_frequencies c)"
    using c by (simp_all add: wf_profile_def)
  define n where "n = real (num_sequences src)"
  have fr: "fold (\<lambda>base fr. fr[pos := (fr ! pos)[base :=
                   fr ! pos ! base + frequencies src ! sp ! base * n]])
               [0..<ALPHABET_SIZE] (frequencies c)
      = (frequencies c)[pos := [r0 + s0 * n, r1 + s1 * n, r2 + s2 * n, r3 + s3 * n]]"
    unfolding upt4 using lp r sr by simp
  have eq: "add_contribution c pos src sp =
      c\<lparr>frequencies := (frequencies c)[pos := [r0 + s0 * n, r1 + s1 * n, r2 + s2 * n, r3 + s3 * n]],
        gap_frequencies := (gap_frequencies c)[pos :=
           gap_frequencies c ! pos + gap_frequencies src ! sp * n]\<rparr>"
    unfolding add_contribution_def Let_def n_def [symmetric] fr by simp
  show "wf_profile (add_contribution c pos src sp)"
    unfolding eq using c(1)
    by (auto simp: wf_profile_def ALPHABET_SIZE_def dest!: set_update_subset_insert [THEN subsetD])
  show "length_p (add_contribution c pos src sp) = length_p c"
    unfolding eq by simp
  show "num_sequences (add_contribution c pos src sp) = num_sequences c"
    unfolding eq by simp
  show "column_mass (add_contribution c pos src sp) pos =
           column_mass c pos + column_mass src sp * real (num_sequences src)"
    unfolding eq column_mass_def n_def [symmetric] using lp r sr
    by (simp add: algebra_simps)
  show "column_mass (add_contribution c pos src sp) q = column_mass c q" if "q \<noteq> pos"
    unfolding eq column_mass_def using that by simp
qed

lemma normalize_props:
  assumes c: "wf_profile c" "pos < length_p c"
  shows "wf_profile (normalizeFrequenciesAtPosition c pos)"
    and "length_p (normalizeFrequenciesAtPosition c pos) = length_p c"
    and "num_sequences (normalizeFrequenciesAtPosition c pos) = num_sequences c"
    and "column_mass (normalizeFrequenciesAtPosition c pos) pos =
           column_mass c pos / real (num_sequences c)"
    and "q \<noteq> pos \<Longrightarrow> column_mass (normalizeFrequenciesAtPosition c pos) q = column_mass c q"
proof -
  obtain r0 r1 r2 r3 where r: "frequencies c ! pos = [r0, r1, r2, r3]"
    using wf_profile_row [OF c] by (rule row4)
  have lp: "pos < length (frequencies c)" "pos < length (gap_frequencies c)"
    using c by (simp_all add: wf_profile_def)
  define n where "n = real (num_sequences c)"
  have fr: "fold (\<lambda>base fr. fr[pos := (fr ! pos)[base := fr ! pos ! base / n]])
               [0..<ALPHABET_SIZE] (frequencies c)
      = (frequencies c)[pos := [r0 / n, r1 / n, r2 / n, r3 / n]]"
    unfolding upt4 using lp r by simp
  have eq: "normalizeFrequenciesAtPosition c pos =
      c\<lparr>frequencies := (frequencies c)[pos := [r0 / n, r1 / n, r2 / n, r3 / n]],
        gap_frequencies := (gap_frequencies c)[pos := gap_frequencies c ! pos / n]\<rparr>"
    unfolding normalizeFrequenciesAtPosition_def Let_def n_def [symmetric] fr by simp
  show "wf_profile (normalizeFrequenciesAtPosition c pos)"
    unfolding eq using c(1)
    by (auto simp: wf_profile_def ALPHABET_SIZE_def dest!: set_update_subset_insert [THEN subsetD])
  show "length_p (normalizeFrequenciesAtPosition c pos) = length_p c"
    unfolding eq by simp
  show "num_sequences (normalizeFrequenciesAtPosition c pos) = num_sequences c"
    unfolding eq by simp
  show "column_mass (normalizeFrequenciesAtPosition c pos) pos =
           column_mass c pos / real (num_sequences c)"
    unfolding eq column_mass_def n_def [symmetric] using lp r
    by (simp add: add_divide_distrib)
  show "column_mass (normalizeFrequenciesAtPosition c pos) q = column_mass c q" if "q \<noteq> pos"
    unfolding eq column_mass_def using that by simp
qed

lemma nongap_count_Suc:
  "k < length s \<Longrightarrow>
   nongap_count s (Suc k) = nongap_count s k + (if s ! k \<noteq> CHR ''-'' then 1 else 0)"
  by (simp add: nongap_count_def take_Suc_conv_app_nth)

lemma nongap_count_mono: "k \<le> k' \<Longrightarrow> nongap_count s k \<le> nongap_count s k'"
proof -
  assume "k \<le> k'"
  then have "take k' s = take k s @ take (k' - k) (drop k s)"
    by (metis le_add_diff_inverse take_add)
  then show ?thesis by (simp add: nongap_count_def)
qed

lemma nongap_count_less:
  assumes "k < length s" "s ! k \<noteq> CHR ''-''"
  shows "nongap_count s k < nongap_count s (length s)"
proof -
  have "nongap_count s (Suc k) \<le> nongap_count s (length s)"
    using assms(1) by (intro nongap_count_mono) simp
  then show ?thesis
    using nongap_count_Suc [OF assms(1)] assms(2) by simp
qed

lemma alignProfiles_column_eq:
  "alignProfiles_column ap p1 p2 pos (c, pos1, pos2) =
     (let g1 = (fst ap ! pos \<noteq> CHR ''-'' \<and> pos1 < length_p p1);
          c1 = (if g1 then add_contribution c pos p1 pos1 else c);
          g2 = (snd ap ! pos \<noteq> CHR ''-'' \<and> pos2 < length_p p2);
          c2 = (if g2 then add_contribution c1 pos p2 pos2 else c1)
      in (normalizeFrequenciesAtPosition c2 pos,
          if g1 then pos1 + 1 else pos1, if g2 then pos2 + 1 else pos2))"
  by (simp add: alignProfiles_column_def Let_def)

lemma merge_inv_step:
  assumes inv: "merge_inv ap p1 p2 L k st" and k: "k < L"
    and wf: "wf_profile p1" "wf_profile p2"
    and len: "length (fst ap) = L" "length (snd ap) = L"
    and cnt: "nongap_count (fst ap) L = length_p p1" "nongap_count (snd ap) L = length_p p2"
  shows "merge_inv ap p1 p2 L (Suc k) (alignProfiles_column ap p1 p2 k st)"
proof -
  obtain c pos1 pos2 where st: "st = (c, pos1, pos2)" by (cases st) auto
  have c: "wf_profile c" "length_p c = L" "k < length_p c"
    and n: "num_sequences c = num_sequences p1 + num_sequences p2"
    and p1: "pos1 = nongap_count (fst ap) k" and p2: "pos2 = nongap_count (snd ap) k"
    and m: "\<And>q. q < L \<Longrightarrow> column_mass c q = (if q < k then merged_mass ap p1 p2 q else 0)"
    using inv k unfolding st merge_inv_def by simp_all
  define g1 where "g1 \<longleftrightarrow> fst ap ! k \<noteq> CHR ''-''"
  define g2 where "g2 \<longleftrightarrow> snd ap ! k \<noteq> CHR ''-''"
  have b1: "pos1 < length_p p1" if g1
    using nongap_count_less [of k "fst ap"] that k len cnt by (simp add: g1_def p1)
  have b2: "pos2 < length_p p2" if g2
    using nongap_count_less [of k "snd ap"] that k len cnt by (simp add: g2_def p2)
  define c1 where "c1 = (if g1 then add_contribution c k p1 pos1 else c)"
  define c2 where "c2 = (if g2 then add_contribution c1 k p2 pos2 else c1)"
  define c3 where "c3 = normalizeFrequenciesAtPosition c2 k"
  have step: "alignProfiles_column ap p1 p2 k st =
      (c3, if g1 then pos1 + 1 else pos1, if g2 then pos2 + 1 else pos2)"
    unfolding st alignProfiles_column_eq Let_def c3_def c2_def c1_def g1_def g2_def
    using b1 b2 by (auto simp: g1_def g2_def)
  have c1: "wf_profile c1" "length_p c1 = L" "num_sequences c1 = num_sequences c"
    "column_mass c1 k = column_mass c k +
       (if g1 then column_mass p1 pos1 * real (num_sequences p1) else 0)"
    "\<And>q. q \<noteq> k \<Longrightarrow> column_mass c1 q = column_mass c q"
    unfolding c1_def using add_contribution_props [OF c(1,3) wf(1) b1] c(1,2)
    by (auto split: if_splits)
  have k1: "k < length_p c1" using c1(2) k by simp
  have c2: "wf_profile c2" "length_p c2 = L" "num_sequences c2 = num_sequences c"
    "column_mass c2 k = column_mass c1 k +
       (if g2 then column_mass p2 pos2 * real (num_sequences p2) else 0)"
    "\<And>q. q \<noteq> k \<Longrightarrow> column_mass c2 q = column_mass c1 q"
    unfolding c2_def using add_contribution_props [OF c1(1) k1 wf(2) b2] c1(1,2,3)
    by (auto split: if_splits)
  have k2: "k < length_p c2" using c2(2) k by simp
  have c3: "wf_profile c3" "length_p c3 = L" "num_sequences c3 = num_sequences c"
    "column_mass c3 k = column_mass c2 k / real (num_sequences c2)"
    "\<And>q. q \<noteq> k \<Longrightarrow> column_mass c3 q = column_mass c2 q"
    unfolding c3_def using normalize_props [OF c2(1) k2] c2(2,3)
    by auto
  have mk: "column_mass c3 k = merged_mass ap p1 p2 k"
    unfolding c3(4) c2(4) c1(4) c2(3) n merged_mass_def
    using m [OF k] by (simp add: g1_def g2_def p1 p2)
  have mq: "column_mass c3 q = (if q < Suc k then merged_mass ap p1 p2 q else 0)" if "q < L" for q
  proof (cases "q = k")
    case True
    then show ?thesis using mk by simp
  next
    case False
    then have "column_mass c3 q = column_mass c q"
      using c3(5) c2(5) c1(5) by simp
    then show ?thesis
      using m [OF that] False by (simp add: less_Suc_eq)
  qed
  have q1: "(if g1 then pos1 + 1 else pos1) = nongap_count (fst ap) (Suc k)"
    using nongap_count_Suc [of k "fst ap"] k len by (simp add: g1_def p1)
  have q2: "(if g2 then pos2 + 1 else pos2) = nongap_count (snd ap) (Suc k)"
    using nongap_count_Suc [of k "snd ap"] k len by (simp add: g2_def p2)
  show ?thesis
    unfolding step merge_inv_def using c3(1,2,3) n q1 q2 mq by simp
qed

lemma merge_inv_init:
  "merge_inv ap p1 p2 L 0
     (\<lparr>frequencies = replicate L (replicate ALPHABET_SIZE 0),
       gap_frequencies = replicate L 0,
       length_p = L,
       num_sequences = num_sequences p1 + num_sequences p2\<rparr>, 0, 0)"
  by (simp add: merge_inv_def wf_profile_def nongap_count_def column_mass_def
      sum_list_replicate_zero)

lemma findBestCharacterAtPosition_alphabet:
  "findBestCharacterAtPosition profile pos \<in> {CHR ''A'', CHR ''T'', CHR ''C'', CHR ''G''}"
  unfolding findBestCharacterAtPosition_def upt4
  by (simp add: getAlphabetChar_def DNA_ALPHABET_def)

lemma generateConsensusFromProfile_eq:
  "generateConsensusFromProfile profile =
     map (findBestCharacterAtPosition profile) [0..<length_p profile]"
proof -
  have "fold (\<lambda>pos consensus. consensus @ [f pos]) xs acc = acc @ map f xs"
    for f :: "nat \<Rightarrow> char" and xs acc
    by (induction xs arbitrary: acc) simp_all
  then show ?thesis by (simp add: generateConsensusFromProfile_def)
qed

lemma consensus_length: "length (generateConsensusFromProfile profile) = length_p profile"
  by (simp add: generateConsensusFromProfile_eq)

lemma consensus_no_gap: "CHR ''-'' \<notin> set (generateConsensusFromProfile profile)"
proof
  assume "CHR ''-'' \<in> set (generateConsensusFromProfile profile)"
  then obtain pos where "findBestCharacterAtPosition profile pos = CHR ''-''"
    by (auto simp: generateConsensusFromProfile_eq)
  then show False
    using findBestCharacterAtPosition_alphabet [of profile pos] by simp
qed

lemma gapped_copy_count:
  assumes "gapped_copy s t" "CHR ''-'' \<notin> set s"
  shows "nongap_count t (length t) = length s"
proof -
  have "filter (\<lambda>c. c \<noteq> CHR ''-'') s = s"
    using assms(2) by (induction s) auto
  then show ?thesis
    using gapped_copy_filter [OF assms(1)] by (simp add: nongap_count_def)
qed

lemma alignProfiles_merged:
  assumes wf: "wf_profile p1" "wf_profile p2"
    and pa: "pairwiseAlignment (generateConsensusFromProfile p1)
               (generateConsensusFromProfile p2) = Some (a, b)"
  shows "\<exists>c. alignProfiles p1 p2 = Some c \<and> wf_profile c \<and> length_p c = length a \<and>
           num_sequences c = num_sequences p1 + num_sequences p2 \<and>
           (\<forall>q<length a. column_mass c q = merged_mass (a, b) p1 p2 q)"
proof -
  obtain a' b' where pa': "pairwiseAlignment (generateConsensusFromProfile p1)
               (generateConsensusFromProfile p2) = Some (a', b')"
    and l: "length a' = length b'"
    and g: "gapped_copy (generateConsensusFromProfile p1) a'"
      "gapped_copy (generateConsensusFromProfile p2) b'"
    by (rule pairwiseAlignment_total)
  have ab: "a' = a" "b' = b" using pa pa' by simp_all
  define L where "L = length a"
  have len: "length (fst (a, b)) = L" "length (snd (a, b)) = L"
    using l ab by (simp_all add: L_def)
  have cnt: "nongap_count (fst (a, b)) L = length_p p1" "nongap_count (snd (a, b)) L = length_p p2"
    using gapped_copy_count [OF g(1) consensus_no_gap] gapped_copy_count [OF g(2) consensus_no_gap]
      l ab by (simp_all add: L_def consensus_length)
  define c0 where "c0 = \<lparr>frequencies = replicate L (replicate ALPHABET_SIZE (0::real)),
       gap_frequencies = replicate L (0::real),
       length_p = L,
       num_sequences = num_sequences p1 + num_sequences p2\<rparr>"
  have "merge_inv (a, b) p1 p2 L L
      (fold (alignProfiles_column (a, b) p1 p2) [0..<L] (c0, 0, 0))"
  proof (rule fold_upt_invariant [where P = "merge_inv (a, b) p1 p2 L"])
    show "0 \<le> L" by simp
    show "merge_inv (a, b) p1 p2 L 0 (c0, 0, 0)"
      unfolding c0_def by (rule merge_inv_init)
    show "merge_inv (a, b) p1 p2 L (Suc i) (alignProfiles_column (a, b) p1 p2 i s)"
      if "0 \<le> i" "i < L" "merge_inv (a, b) p1 p2 L i s" for i s
      using that(3,2) wf len cnt by (rule merge_inv_step)
  qed
  moreover have "alignProfiles p1 p2 =
      Some (fst (fold (alignProfiles_column (a, b) p1 p2) [0..<L] (c0, 0, 0)))"
    by (simp add: alignProfiles_def Let_def pa L_def c0_def)
  ultimately show ?thesis
    unfolding merge_inv_def L_def by (auto split: prod.splits)
qed

subsection \<open>The whole run\<close>

text \<open>
  Every stage returns, so a run on at least two sequences returns one output per input,
  each the first row of the pairwise alignment of that input against the final consensus.
\<close>

lemma alignProfiles_total: "\<exists>p. alignProfiles profile1 profile2 = Some p"
proof -
  obtain a b where "pairwiseAlignment (generateConsensusFromProfile profile1)
      (generateConsensusFromProfile profile2) = Some (a, b)"
    by (rule pairwiseAlignment_total)
  then show ?thesis
    by (simp add: alignProfiles_def Let_def)
qed

lemma progressiveAlignment_total: "\<exists>p. progressiveAlignment seqs node = Some p"
proof (induction seqs node rule: progressiveAlignment.induct)
  case (1 seqs)
  then show ?case by simp
next
  case (2 seqs i d l r ss)
  show ?case
  proof (cases "ss \<noteq> [] \<and> l = None \<and> r = None")
    case True
    then show ?thesis by simp
  next
    case leaf: False
    show ?thesis
    proof (cases "l \<noteq> None \<and> r \<noteq> None")
      case True
      from "2.IH"(1) [OF leaf True] obtain lp where lp: "progressiveAlignment seqs l = Some lp"
        by blast
      from "2.IH"(2) [OF leaf True lp] obtain rp where rp: "progressiveAlignment seqs r = Some rp"
        by blast
      from alignProfiles_total [of lp rp] show ?thesis
        using leaf True lp rp by simp
    next
      case False
      with leaf show ?thesis by auto
    qed
  qed
qed

lemma fold_option_append:
  assumes "\<forall>i\<in>set xs. g i \<noteq> None"
  shows "fold (\<lambda>i acc. case acc of None \<Rightarrow> None
            | Some ys \<Rightarrow> (case g i of None \<Rightarrow> None | Some x \<Rightarrow> Some (ys @ [h i x])))
          xs (Some acc)
       = Some (acc @ map (\<lambda>i. h i (the (g i))) xs)"
  using assms by (induction xs arbitrary: acc) auto

lemma profileToSequences_eq:
  "profileToSequences profile seqs sequence_order =
     Some (map (\<lambda>i. \<lparr>header = header (seqs ! i),
                     sequence = fst (the (pairwiseAlignment (sequence (seqs ! i))
                                  (generateConsensusFromProfile profile)))\<rparr>)
             [0..<length seqs])"
proof -
  have g: "\<forall>i\<in>set [0..<length seqs].
      pairwiseAlignment (sequence (seqs ! i)) (generateConsensusFromProfile profile) \<noteq> None"
    using pairwiseAlignment_total by (metis option.distinct(1))
  show ?thesis
    unfolding profileToSequences_def Let_def
    using fold_option_append [OF g, where acc = "[]" and
        h = "\<lambda>i aligned_pair. \<lparr>header = header (seqs ! i), sequence = fst aligned_pair\<rparr>"]
    by simp
qed

lemma alignSequences_general:
  assumes "2 \<le> length seqs"
  shows "\<exists>aligned this'. alignSequences this seqs = Inr (aligned, this') \<and>
     length aligned = length seqs \<and>
     final_length this' = length (sequence (aligned ! 0)) \<and>
     (\<forall>i<length seqs. header (aligned ! i) = header (seqs ! i) \<and>
        gapped_copy (sequence (seqs ! i)) (sequence (aligned ! i)))"
proof -
  have n: "\<not> length seqs < 2" "1 \<le> length seqs" using assms by simp_all
  obtain root where t: "buildGuideTree seqs (calculateDistanceMatrix seqs) = Some (Some root)"
    using buildGuideTree_forest [OF n(2)] by blast
  obtain p where p: "progressiveAlignment seqs (Some root) = Some p"
    using progressiveAlignment_total by blast
  define aligned where "aligned = map (\<lambda>i. \<lparr>header = header (seqs ! i),
                     sequence = fst (the (pairwiseAlignment (sequence (seqs ! i))
                                  (generateConsensusFromProfile p)))\<rparr>)
             [0..<length seqs]"
  have pts: "profileToSequences p seqs [0..<length seqs] = Some aligned"
    unfolding aligned_def by (rule profileToSequences_eq)
  have len: "length aligned = length seqs" by (simp add: aligned_def)
  have ne: "aligned \<noteq> []" using len assms by auto
  have each: "header (aligned ! i) = header (seqs ! i) \<and>
        gapped_copy (sequence (seqs ! i)) (sequence (aligned ! i))" if "i < length seqs" for i
  proof -
    obtain a b where ab: "pairwiseAlignment (sequence (seqs ! i)) (generateConsensusFromProfile p)
        = Some (a, b)" and g: "gapped_copy (sequence (seqs ! i)) a"
      by (rule pairwiseAlignment_total)
    show ?thesis using that ab g by (simp add: aligned_def)
  qed
  define this' where "this' = this\<lparr>total_gaps := 0, final_length := 0, guide_tree := Some root\<rparr>
      \<lparr>final_length := length (sequence (aligned ! 0)),
       total_gaps := fold (\<lambda>seq g. g + count_list (sequence seq) (CHR ''-'')) aligned 0\<rparr>"
  have "alignSequences this seqs = Inr (aligned, this')"
    using n(1) t p pts ne by (simp add: alignSequences_def Let_def this'_def)
  moreover have "final_length this' = length (sequence (aligned ! 0))"
    by (simp add: this'_def)
  ultimately show ?thesis
    using len each by blast
qed

lemma alignSequences_AATC_TCT:
  "alignSequences MSAAligner_new
     [\<lparr>header = ''a'', sequence = ''AATC''\<rparr>, \<lparr>header = ''b'', sequence = ''TCT''\<rparr>] =
     Inr ([\<lparr>header = ''a'', sequence = ''AATC''\<rparr>, \<lparr>header = ''b'', sequence = ''--TCT''\<rparr>],
          \<lparr>total_gaps = 2, final_length = 4,
             guide_tree = Some (TreeNode (- 1) (3 / 8) (Some (TreeNode 0 0 None None [0]))
                                  (Some (TreeNode 1 0 None None [1])) [0, 1])\<rparr>)"
  by code_simp

subsection \<open>Profiles at every stage\<close>

text \<open>
  Every profile of the tree walk is well formed, whatever the masses of its columns. A
  merged column in which the consensus alignment has a character on both sides is the
  mean of the two source columns, weighted by the sequence counts: it sums to 1 when
  both do, and it is as close to 1 as they are.
\<close>

lemma Profile_empty_wf: "wf_profile Profile_empty"
  by (simp add: wf_profile_def Profile_empty_def)

lemma alignProfiles_wf:
  assumes "wf_profile p1" "wf_profile p2" "alignProfiles p1 p2 = Some c"
  shows "wf_profile c"
proof -
  obtain a b where pa: "pairwiseAlignment (generateConsensusFromProfile p1)
      (generateConsensusFromProfile p2) = Some (a, b)"
    by (rule pairwiseAlignment_total)
  from alignProfiles_merged [OF assms(1,2) pa] assms(3) show ?thesis
    by auto
qed

lemma progressiveAlignment_wf:
  "progressiveAlignment seqs node = Some p \<Longrightarrow> wf_profile p"
proof (induction seqs node arbitrary: p rule: progressiveAlignment.induct)
  case (1 seqs)
  then show ?case by (simp add: Profile_empty_wf)
next
  case (2 seqs i d l r ss)
  show ?case
  proof (cases "ss \<noteq> [] \<and> l = None \<and> r = None")
    case True
    with "2.prems" show ?thesis by (auto simp: createProfile_wf Let_def)
  next
    case leaf: False
    show ?thesis
    proof (cases "l \<noteq> None \<and> r \<noteq> None")
      case True
      obtain lp where lp: "progressiveAlignment seqs l = Some lp"
        using progressiveAlignment_total by blast
      obtain rp where rp: "progressiveAlignment seqs r = Some rp"
        using progressiveAlignment_total by blast
      have wl: "wf_profile lp" using "2.IH"(1) [OF leaf True lp] .
      have wr: "wf_profile rp" using "2.IH"(2) [OF leaf True lp rp] .
      have "alignProfiles lp rp = Some p"
        using "2.prems" leaf True lp rp by simp
      then show ?thesis using wl wr by (rule alignProfiles_wf [rotated 2])
    next
      case False
      with leaf "2.prems" show ?thesis by (auto simp: Profile_empty_wf)
    qed
  qed
qed

lemma weighted_mean_tolerance:
  fixes m1 m2 n1 n2 e :: real
  assumes n: "0 \<le> n1" "0 \<le> n2" "0 < n1 + n2"
    and m: "\<bar>m1 - 1\<bar> \<le> e" "\<bar>m2 - 1\<bar> \<le> e"
  shows "\<bar>(m1 * n1 + m2 * n2) / (n1 + n2) - 1\<bar> \<le> e"
proof -
  have eq: "(m1 * n1 + m2 * n2) / (n1 + n2) - 1 = ((m1 - 1) * n1 + (m2 - 1) * n2) / (n1 + n2)"
    using n(3) by (simp add: field_simps)
  have "\<bar>(m1 - 1) * n1 + (m2 - 1) * n2\<bar> \<le> \<bar>(m1 - 1) * n1\<bar> + \<bar>(m2 - 1) * n2\<bar>"
    by (rule abs_triangle_ineq)
  also have "\<dots> = \<bar>m1 - 1\<bar> * n1 + \<bar>m2 - 1\<bar> * n2"
    using n(1,2) by (simp add: abs_mult)
  also have "\<dots> \<le> e * n1 + e * n2"
    using m n(1,2) by (intro add_mono mult_right_mono)
  finally have "\<bar>(m1 - 1) * n1 + (m2 - 1) * n2\<bar> \<le> e * (n1 + n2)"
    by (simp add: algebra_simps)
  then have "\<bar>(m1 - 1) * n1 + (m2 - 1) * n2\<bar> / (n1 + n2) \<le> e"
    using n(3) by (simp add: pos_divide_le_eq)
  then show ?thesis
    unfolding eq using n(3) by simp
qed

lemma merged_mass_gap_free:
  assumes "fst ap ! col \<noteq> CHR ''-''" "snd ap ! col \<noteq> CHR ''-''"
  shows "merged_mass ap p1 p2 col =
     (column_mass p1 (nongap_count (fst ap) col) * real (num_sequences p1)
      + column_mass p2 (nongap_count (snd ap) col) * real (num_sequences p2))
     / (real (num_sequences p1) + real (num_sequences p2))"
  using assms by (simp add: merged_mass_def)

lemma alignProfiles_column_law:
  assumes wf: "wf_profile p1" "wf_profile p2"
  shows "\<exists>a b c.
      pairwiseAlignment (generateConsensusFromProfile p1) (generateConsensusFromProfile p2)
        = Some (a, b) \<and>
      alignProfiles p1 p2 = Some c \<and> wf_profile c \<and>
      length_p c = length a \<and> length b = length a \<and>
      num_sequences c = num_sequences p1 + num_sequences p2 \<and>
      (\<forall>col<length a. a ! col \<noteq> CHR ''-'' \<and> b ! col \<noteq> CHR ''-'' \<longrightarrow>
         nongap_count a col < length_p p1 \<and> nongap_count b col < length_p p2 \<and>
         (0 < num_sequences p1 + num_sequences p2 \<and>
          column_mass p1 (nongap_count a col) = 1 \<and>
          column_mass p2 (nongap_count b col) = 1 \<longrightarrow> column_mass c col = 1) \<and>
         (0 < num_sequences p1 + num_sequences p2 \<and>
          \<bar>column_mass p1 (nongap_count a col) - 1\<bar> \<le> 1 / 10 ^ 9 \<and>
          \<bar>column_mass p2 (nongap_count b col) - 1\<bar> \<le> 1 / 10 ^ 9 \<longrightarrow>
          \<bar>column_mass c col - 1\<bar> \<le> 1 / 10 ^ 9))"
proof -
  obtain a b where pa: "pairwiseAlignment (generateConsensusFromProfile p1)
               (generateConsensusFromProfile p2) = Some (a, b)"
    and l: "length a = length b"
    and g: "gapped_copy (generateConsensusFromProfile p1) a"
      "gapped_copy (generateConsensusFromProfile p2) b"
    by (rule pairwiseAlignment_total)
  obtain c where c: "alignProfiles p1 p2 = Some c" "wf_profile c" "length_p c = length a"
    "num_sequences c = num_sequences p1 + num_sequences p2"
    and mm: "\<forall>q<length a. column_mass c q = merged_mass (a, b) p1 p2 q"
    using alignProfiles_merged [OF wf pa] by blast
  have cnt: "nongap_count a (length a) = length_p p1" "nongap_count b (length b) = length_p p2"
    using gapped_copy_count [OF g(1) consensus_no_gap] gapped_copy_count [OF g(2) consensus_no_gap]
    by (simp_all add: consensus_length)
  have col: "nongap_count a col < length_p p1 \<and> nongap_count b col < length_p p2 \<and>
         (0 < num_sequences p1 + num_sequences p2 \<and>
          column_mass p1 (nongap_count a col) = 1 \<and>
          column_mass p2 (nongap_count b col) = 1 \<longrightarrow> column_mass c col = 1) \<and>
         (0 < num_sequences p1 + num_sequences p2 \<and>
          \<bar>column_mass p1 (nongap_count a col) - 1\<bar> \<le> 1 / 10 ^ 9 \<and>
          \<bar>column_mass p2 (nongap_count b col) - 1\<bar> \<le> 1 / 10 ^ 9 \<longrightarrow>
          \<bar>column_mass c col - 1\<bar> \<le> 1 / 10 ^ 9)"
    if h: "col < length a" "a ! col \<noteq> CHR ''-''" "b ! col \<noteq> CHR ''-''" for col
  proof -
    have colb: "col < length b" using h(1) l by simp
    have i1: "nongap_count a col < length_p p1"
      using nongap_count_less [OF h(1,2)] cnt by simp
    have i2: "nongap_count b col < length_p p2"
      using nongap_count_less [OF colb h(3)] cnt by simp
    define m1 where "m1 = column_mass p1 (nongap_count a col)"
    define m2 where "m2 = column_mass p2 (nongap_count b col)"
    define n1 where "n1 = real (num_sequences p1)"
    define n2 where "n2 = real (num_sequences p2)"
    have cm: "column_mass c col = (m1 * n1 + m2 * n2) / (n1 + n2)"
      using mm h merged_mass_gap_free [of "(a, b)" col p1 p2]
      by (simp add: m1_def m2_def n1_def n2_def)
    have nn: "0 \<le> n1" "0 \<le> n2" by (simp_all add: n1_def n2_def)
    have pos: "0 < n1 + n2" if "0 < num_sequences p1 + num_sequences p2"
      using that unfolding n1_def n2_def by linarith
    have one: "0 < num_sequences p1 + num_sequences p2 \<and> m1 = 1 \<and> m2 = 1 \<longrightarrow>
        column_mass c col = 1"
    proof (intro impI, elim conjE)
      assume "0 < num_sequences p1 + num_sequences p2" "m1 = 1" "m2 = 1"
      then show "column_mass c col = 1"
        using pos by (simp add: cm)
    qed
    have tol: "0 < num_sequences p1 + num_sequences p2 \<and>
        \<bar>m1 - 1\<bar> \<le> 1 / 10 ^ 9 \<and> \<bar>m2 - 1\<bar> \<le> 1 / 10 ^ 9 \<longrightarrow>
        \<bar>column_mass c col - 1\<bar> \<le> 1 / 10 ^ 9"
    proof (intro impI, elim conjE)
      assume a: "0 < num_sequences p1 + num_sequences p2"
        "\<bar>m1 - 1\<bar> \<le> 1 / 10 ^ 9" "\<bar>m2 - 1\<bar> \<le> 1 / 10 ^ 9"
      show "\<bar>column_mass c col - 1\<bar> \<le> 1 / 10 ^ 9"
        unfolding cm using nn pos [OF a(1)] a(2,3) by (rule weighted_mean_tolerance)
    qed
    show ?thesis
      by (intro conjI i1 i2 one [unfolded m1_def m2_def] tol [unfolded m1_def m2_def])
  qed
  show ?thesis
    using pa c l col by (intro exI [of _ a] exI [of _ b] exI [of _ c]) simp
qed

section \<open>The claims\<close>

text \<open>
  One subsection per claim of the specification, in the order of their numbers. A claim
  that holds is stated and proved, with an instance at a concrete input after it. A claim
  that fails comes with the concrete input at which it fails, and with the statement that
  holds in its place.
\<close>

subsection \<open>C1: one final length for all outputs\<close>

text \<open>
  Claim C1 says that all \<open>N\<close> outputs of \<open>alignSequences\<close> have \<open>final_length\<close>
  characters. Each output is the first half of a separate pairwise alignment of one input
  against the final consensus, and those alignments need not have one length. On the two
  sequences \<open>AATC\<close> and \<open>TCT\<close> the consensus is \<open>AATC\<close>; the first output is \<open>AATC\<close>
  (4 characters, which becomes \<open>final_length\<close>), the second is \<open>--TCT\<close> (5 characters).
\<close>

theorem alignSequences_unequal_lengths:
  "alignSequences MSAAligner_new
     [\<lparr>header = ''a'', sequence = ''AATC''\<rparr>, \<lparr>header = ''b'', sequence = ''TCT''\<rparr>] =
     Inr ([\<lparr>header = ''a'', sequence = ''AATC''\<rparr>, \<lparr>header = ''b'', sequence = ''--TCT''\<rparr>],
          \<lparr>total_gaps = 2, final_length = 4,
             guide_tree = Some (TreeNode (- 1) (3 / 8) (Some (TreeNode 0 0 None None [0]))
                                  (Some (TreeNode 1 0 None None [1])) [0, 1])\<rparr>) \<and>
   length ''AATC'' = 4 \<and> length ''--TCT'' = 5"
  using alignSequences_AATC_TCT by simp

subsection \<open>C2: the probability mass of a profile column\<close>

text \<open>
  Claim C2 says that every column of every profile of the pipeline, from \<open>createProfile\<close>
  or from \<open>alignProfiles\<close>, has symbol frequencies and gap frequency summing to 1 within
  \<open>10\<^sup>-\<^sup>9\<close>. Two counterexamples. The single-character sequence \<open>N\<close> gives a leaf
  profile whose only column has mass 0: the guard \<open>base_idx >= 0\<close> skips a character outside
  the alphabet. Merging the leaf profiles of \<open>A\<close> and \<open>TT\<close> aligns the consensus \<open>A\<close>
  as \<open>-A\<close> against \<open>TT\<close>; the first merged column receives only the contribution of the
  second profile and is then divided by 2, so its mass is \<open>1/2\<close>. The values \<open>0\<close> and
  \<open>1/2\<close> are exact in binary floating point as well.
\<close>

theorem profile_mass_counterexample:
  "column_mass (createProfile ''N'') 0 = 0 \<and>
   \<not> \<bar>column_mass (createProfile ''N'') 0 - 1\<bar> \<le> 1 / 10 ^ 9 \<and>
   alignProfiles (createProfile ''A'') (createProfile ''TT'') =
     Some \<lparr>frequencies = [[0, 1 / 2, 0, 0], [1 / 2, 1 / 2, 0, 0]],
            gap_frequencies = [0, 0], length_p = 2, num_sequences = 2\<rparr> \<and>
   column_mass \<lparr>frequencies = [[0, 1 / 2, 0, 0], [1 / 2, 1 / 2, 0, 0]],
                 gap_frequencies = [0, 0], length_p = 2, num_sequences = 2\<rparr> 0 = 1 / 2 \<and>
   \<not> \<bar>column_mass \<lparr>frequencies = [[0, 1 / 2, 0, 0], [1 / 2, 1 / 2, 0, 0]],
                 gap_frequencies = [0, 0], length_p = 2, num_sequences = 2\<rparr> 0 - 1\<bar> \<le> 1 / 10 ^ 9"
proof -
  have n: "column_mass (createProfile ''N'') 0 = 0"
    by (simp add: createProfile_mass toupper_def)
  have a: "alignProfiles (createProfile ''A'') (createProfile ''TT'') =
     Some \<lparr>frequencies = [[0, 1 / 2, 0, 0], [1 / 2, 1 / 2, 0, 0]],
            gap_frequencies = [0, 0], length_p = 2, num_sequences = 2\<rparr>"
    by code_simp
  have m: "column_mass \<lparr>frequencies = [[0, 1 / 2, 0, 0], [1 / 2, 1 / 2, 0, 0]],
                 gap_frequencies = [0, 0], length_p = 2, num_sequences = 2\<rparr> 0 = 1 / 2"
    by (simp add: column_mass_def)
  show ?thesis
    unfolding n a m by simp
qed

text \<open>
  Claim C2 as amended. Every profile made by \<open>createProfile\<close> is well formed, and each of
  its columns whose character is \<open>'-'\<close> or one of \<open>A\<close>, \<open>T\<close>, \<open>C\<close>, \<open>G\<close> (up to case) has
  symbol frequencies and gap frequency summing to 1. Every profile produced at any stage
  of the tree walk is well formed. Every merge of two well-formed profiles by
  \<open>alignProfiles\<close> returns a well-formed profile that has the length of the consensus
  alignment and the sum of the two sequence counts; and for each of its columns in which
  the consensus alignment has a character of both profiles (no gap on either side), if
  the two source columns placed there sum to 1, so does the merged column, and if they
  sum to 1 within \<open>10\<^sup>-\<^sup>9\<close>, so does the merged column. Nothing is required of the
  other columns of the two profiles, so the law applies at every stage of the tree walk.
  Nothing is said of a merged column with a gap on one side: \<open>createProfile\<close> and
  \<open>alignSequenceToProfile\<close> record a gap as gap frequency, \<open>alignProfiles\<close> has no such
  branch, and the mass missing there is neither promised nor denied.
\<close>

theorem profile_mass_amended:
  "wf_profile (createProfile s) \<and>
   (pos < length s \<and>
      (s ! pos = CHR ''-'' \<or> toupper (s ! pos) \<in> {CHR ''A'', CHR ''T'', CHR ''C'', CHR ''G''}) \<longrightarrow>
      column_mass (createProfile s) pos = 1) \<and>
   (progressiveAlignment seqs node = Some p \<longrightarrow> wf_profile p) \<and>
   (wf_profile p1 \<and> wf_profile p2 \<longrightarrow>
      (\<exists>a b c.
         pairwiseAlignment (generateConsensusFromProfile p1) (generateConsensusFromProfile p2)
           = Some (a, b) \<and>
         alignProfiles p1 p2 = Some c \<and> wf_profile c \<and>
         length_p c = length a \<and> length b = length a \<and>
         num_sequences c = num_sequences p1 + num_sequences p2 \<and>
         (\<forall>col<length a. a ! col \<noteq> CHR ''-'' \<and> b ! col \<noteq> CHR ''-'' \<longrightarrow>
            nongap_count a col < length_p p1 \<and> nongap_count b col < length_p p2 \<and>
            (0 < num_sequences p1 + num_sequences p2 \<and>
             column_mass p1 (nongap_count a col) = 1 \<and>
             column_mass p2 (nongap_count b col) = 1 \<longrightarrow> column_mass c col = 1) \<and>
            (0 < num_sequences p1 + num_sequences p2 \<and>
             \<bar>column_mass p1 (nongap_count a col) - 1\<bar> \<le> 1 / 10 ^ 9 \<and>
             \<bar>column_mass p2 (nongap_count b col) - 1\<bar> \<le> 1 / 10 ^ 9 \<longrightarrow>
             \<bar>column_mass c col - 1\<bar> \<le> 1 / 10 ^ 9))))"
proof (intro conjI impI)
  show "wf_profile (createProfile s)"
    by (rule createProfile_wf)
  show "column_mass (createProfile s) pos = 1"
    if "pos < length s \<and>
      (s ! pos = CHR ''-'' \<or> toupper (s ! pos) \<in> {CHR ''A'', CHR ''T'', CHR ''C'', CHR ''G''})"
    using that createProfile_mass [of pos s] by auto
  show "wf_profile p" if "progressiveAlignment seqs node = Some p"
    using that by (rule progressiveAlignment_wf)
  show "\<exists>a b c.
         pairwiseAlignment (generateConsensusFromProfile p1) (generateConsensusFromProfile p2)
           = Some (a, b) \<and>
         alignProfiles p1 p2 = Some c \<and> wf_profile c \<and>
         length_p c = length a \<and> length b = length a \<and>
         num_sequences c = num_sequences p1 + num_sequences p2 \<and>
         (\<forall>col<length a. a ! col \<noteq> CHR ''-'' \<and> b ! col \<noteq> CHR ''-'' \<longrightarrow>
            nongap_count a col < length_p p1 \<and> nongap_count b col < length_p p2 \<and>
            (0 < num_sequences p1 + num_sequences p2 \<and>
             column_mass p1 (nongap_count a col) = 1 \<and>
             column_mass p2 (nongap_count b col) = 1 \<longrightarrow> column_mass c col = 1) \<and>
            (0 < num_sequences p1 + num_sequences p2 \<and>
             \<bar>column_mass p1 (nongap_count a col) - 1\<bar> \<le> 1 / 10 ^ 9 \<and>
             \<bar>column_mass p2 (nongap_count b col) - 1\<bar> \<le> 1 / 10 ^ 9 \<longrightarrow>
             \<bar>column_mass c col - 1\<bar> \<le> 1 / 10 ^ 9))"
    if "wf_profile p1 \<and> wf_profile p2"
    using that alignProfiles_column_law [of p1 p2] by blast
qed

theorem profile_mass_amended_witness:
  "(1::nat) < length ''Ag-'' \<and>
   toupper (''Ag-'' ! 1) \<in> {CHR ''A'', CHR ''T'', CHR ''C'', CHR ''G''} \<and>
   column_mass (createProfile ''Ag-'') 1 = 1 \<and>
   progressiveAlignment
     [\<lparr>header = ''a'', sequence = ''AATC''\<rparr>, \<lparr>header = ''b'', sequence = ''AAT''\<rparr>]
     (Some (TreeNode (- 1) (1 / 8) (Some (TreeNode 0 0 None None [0]))
              (Some (TreeNode 1 0 None None [1])) [0, 1]))
     = Some \<lparr>frequencies = [[1, 0, 0, 0], [1, 0, 0, 0], [0, 1, 0, 0], [0, 0, 1 / 2, 0]],
       gap_frequencies = [0, 0, 0, 0], length_p = 4, num_sequences = 2\<rparr> \<and>
   wf_profile \<lparr>frequencies = [[1, 0, 0, 0], [1, 0, 0, 0], [0, 1, 0, 0], [0, 0, 1 / 2, 0]],
       gap_frequencies = [0, 0, 0, 0], length_p = 4, num_sequences = 2\<rparr> \<and>
   column_mass \<lparr>frequencies = [[1, 0, 0, 0], [1, 0, 0, 0], [0, 1, 0, 0], [0, 0, 1 / 2, 0]],
       gap_frequencies = [0, 0, 0, 0], length_p = 4, num_sequences = 2\<rparr> 3 = 1 / 2 \<and>
   wf_profile (createProfile ''TCT'') \<and>
   pairwiseAlignment (generateConsensusFromProfile (createProfile ''TCT''))
     (generateConsensusFromProfile \<lparr>frequencies = [[1, 0, 0, 0], [1, 0, 0, 0], [0, 1, 0, 0], [0, 0, 1 / 2, 0]],
       gap_frequencies = [0, 0, 0, 0], length_p = 4, num_sequences = 2\<rparr>) = Some (''--TCT'', ''AATC-'') \<and>
   (2::nat) < length ''--TCT'' \<and> ''--TCT'' ! 2 \<noteq> CHR ''-'' \<and> ''AATC-'' ! 2 \<noteq> CHR ''-'' \<and>
   nongap_count ''--TCT'' 2 = 0 \<and> nongap_count ''AATC-'' 2 = 2 \<and>
   0 < num_sequences (createProfile ''TCT'') + num_sequences \<lparr>frequencies = [[1, 0, 0, 0], [1, 0, 0, 0], [0, 1, 0, 0], [0, 0, 1 / 2, 0]],
       gap_frequencies = [0, 0, 0, 0], length_p = 4, num_sequences = 2\<rparr> \<and>
   column_mass (createProfile ''TCT'') 0 = 1 \<and>
   column_mass \<lparr>frequencies = [[1, 0, 0, 0], [1, 0, 0, 0], [0, 1, 0, 0], [0, 0, 1 / 2, 0]],
       gap_frequencies = [0, 0, 0, 0], length_p = 4, num_sequences = 2\<rparr> 2 = 1 \<and>
   (\<exists>c. alignProfiles (createProfile ''TCT'') \<lparr>frequencies = [[1, 0, 0, 0], [1, 0, 0, 0], [0, 1, 0, 0], [0, 0, 1 / 2, 0]],
       gap_frequencies = [0, 0, 0, 0], length_p = 4, num_sequences = 2\<rparr> = Some c \<and> wf_profile c \<and>
        length_p c = 5 \<and> num_sequences c = 3 \<and> column_mass c 2 = 1)"
proof -
  let ?P2 = "\<lparr>frequencies = [[1, 0, 0, 0], [1, 0, 0, 0], [0, 1, 0, 0], [0, 0, 1 / 2, 0]],
       gap_frequencies = [0, 0, 0, 0], length_p = 4, num_sequences = 2\<rparr>"
  let ?S = "[\<lparr>header = ''a'', sequence = ''AATC''\<rparr>, \<lparr>header = ''b'', sequence = ''AAT''\<rparr>]"
  let ?T = "Some (TreeNode (- 1) (1 / 8) (Some (TreeNode 0 0 None None [0]))
              (Some (TreeNode 1 0 None None [1])) [0, 1])"
  note t = profile_mass_amended [of "''Ag-''" 1 ?S ?T ?P2 "createProfile ''TCT''" ?P2]
  have h1: "(1::nat) < length ''Ag-''"
    "toupper (''Ag-'' ! 1) \<in> {CHR ''A'', CHR ''T'', CHR ''C'', CHR ''G''}"
    by (simp_all add: toupper_def)
  have a: "column_mass (createProfile ''Ag-'') 1 = 1"
    using t h1 by blast
  have e: "progressiveAlignment ?S ?T = Some ?P2"
    by code_simp
  have w2: "wf_profile ?P2"
    using t e by blast
  have w1: "wf_profile (createProfile ''TCT'')"
    by (rule createProfile_wf)
  have pa: "pairwiseAlignment (generateConsensusFromProfile (createProfile ''TCT''))
     (generateConsensusFromProfile ?P2) = Some (''--TCT'', ''AATC-'')"
    by code_simp
  have col: "(2::nat) < length ''--TCT''" "''--TCT'' ! 2 \<noteq> CHR ''-''" "''AATC-'' ! 2 \<noteq> CHR ''-''"
    by simp_all
  have cnt: "nongap_count ''--TCT'' 2 = 0" "nongap_count ''AATC-'' 2 = 2"
    by code_simp+
  have n: "0 < num_sequences (createProfile ''TCT'') + num_sequences ?P2"
    by simp
  have m1: "column_mass (createProfile ''TCT'') 0 = 1"
    by (simp add: createProfile_mass toupper_def)
  have m2: "column_mass ?P2 2 = 1" and m3: "column_mass ?P2 3 = 1 / 2"
    by (simp_all add: column_mass_def)
  from t w1 w2 obtain x y c where
    xy: "pairwiseAlignment (generateConsensusFromProfile (createProfile ''TCT''))
           (generateConsensusFromProfile ?P2) = Some (x, y)"
    and c: "alignProfiles (createProfile ''TCT'') ?P2 = Some c" "wf_profile c"
      "length_p c = length x"
      "num_sequences c = num_sequences (createProfile ''TCT'') + num_sequences ?P2"
    and law: "\<forall>col<length x. x ! col \<noteq> CHR ''-'' \<and> y ! col \<noteq> CHR ''-'' \<longrightarrow>
            nongap_count x col < length_p (createProfile ''TCT'') \<and>
            nongap_count y col < length_p ?P2 \<and>
            (0 < num_sequences (createProfile ''TCT'') + num_sequences ?P2 \<and>
             column_mass (createProfile ''TCT'') (nongap_count x col) = 1 \<and>
             column_mass ?P2 (nongap_count y col) = 1 \<longrightarrow> column_mass c col = 1) \<and>
            (0 < num_sequences (createProfile ''TCT'') + num_sequences ?P2 \<and>
             \<bar>column_mass (createProfile ''TCT'') (nongap_count x col) - 1\<bar> \<le> 1 / 10 ^ 9 \<and>
             \<bar>column_mass ?P2 (nongap_count y col) - 1\<bar> \<le> 1 / 10 ^ 9 \<longrightarrow>
             \<bar>column_mass c col - 1\<bar> \<le> 1 / 10 ^ 9)"
    by blast
  have x: "x = ''--TCT''" and y: "y = ''AATC-''"
    using xy pa by simp_all
  have "column_mass c 2 = 1"
    using law [rule_format, of 2] col cnt n m1 m2 unfolding x y by simp
  moreover have "length_p c = 5" "num_sequences c = 3"
    using c(3,4) by (simp_all add: x createProfile_fields)
  ultimately have ex: "\<exists>c. alignProfiles (createProfile ''TCT'') ?P2 = Some c \<and> wf_profile c \<and>
        length_p c = 5 \<and> num_sequences c = 3 \<and> column_mass c 2 = 1"
    using c(1,2) by blast
  show ?thesis
    by (intro conjI h1 a e w2 m3 w1 pa col cnt n m1 m2 ex)
qed

subsection \<open>C3: fewer than two sequences\<close>

text \<open>
  Claim C3 says that a call with fewer than 2 sequences fails with an
  \<open>InsufficientInputError\<close> and produces no result. The guard at the head of
  \<open>alignSequences\<close> does something else: it writes a message to the error stream (streams
  are not part of the model) and returns normally, handing back the input vector.
  Counterexample: with one sequence the call returns that sequence, not a failure.
\<close>

theorem alignSequences_too_few_counterexample:
  "length [\<lparr>header = ''a'', sequence = ''ACGT''\<rparr>] < 2 \<and>
   alignSequences MSAAligner_new [\<lparr>header = ''a'', sequence = ''ACGT''\<rparr>]
     = Inr ([\<lparr>header = ''a'', sequence = ''ACGT''\<rparr>], MSAAligner_new) \<and>
   alignSequences MSAAligner_new [\<lparr>header = ''a'', sequence = ''ACGT''\<rparr>]
     \<noteq> Inl InsufficientInputError"
  by (simp add: alignSequences_def)

text \<open>
  Claim C3 as amended. When fewer than 2 sequences are supplied, \<open>alignSequences\<close> returns
  at once and normally: the returned vector is the input, unchanged, and the aligner's
  statistics and guide tree are left as they were. No alignment step runs and no typed
  failure is raised.
\<close>

theorem alignSequences_too_few:
  "length seqs < 2 \<Longrightarrow> alignSequences this seqs = Inr (seqs, this)"
  by (simp add: alignSequences_def)

theorem alignSequences_too_few_witness:
  "length ([] :: Sequence list) < 2 \<and>
   alignSequences MSAAligner_new [] = Inr ([], MSAAligner_new)"
  using alignSequences_too_few [of "[]" MSAAligner_new] by simp

subsection \<open>C4: stripping the gaps gives back the input\<close>

text \<open>
  Claim C4 says that removing every \<open>'-'\<close> from the \<open>i\<close>-th output reproduces the \<open>i\<close>-th
  input exactly. The input may itself contain \<open>'-'\<close> (the FASTA reader accepts it and
  \<open>createProfile\<close> has a branch for it); those characters are removed as well.
  Counterexample: the inputs \<open>A-\<close> and \<open>A\<close>.
\<close>

theorem alignSequences_strip_gaps_counterexample:
  "alignSequences MSAAligner_new
     [\<lparr>header = ''a'', sequence = ''A-''\<rparr>, \<lparr>header = ''b'', sequence = ''A''\<rparr>] =
     Inr ([\<lparr>header = ''a'', sequence = ''A-''\<rparr>, \<lparr>header = ''b'', sequence = ''-A''\<rparr>],
          \<lparr>total_gaps = 2, final_length = 2,
             guide_tree = Some (TreeNode (- 1) (1 / 4) (Some (TreeNode 0 0 None None [0]))
                                  (Some (TreeNode 1 0 None None [1])) [0, 1])\<rparr>) \<and>
   strip_gaps ''A-'' = ''A'' \<and> ''A'' \<noteq> ''A-''"
proof -
  have "alignSequences MSAAligner_new
     [\<lparr>header = ''a'', sequence = ''A-''\<rparr>, \<lparr>header = ''b'', sequence = ''A''\<rparr>] =
     Inr ([\<lparr>header = ''a'', sequence = ''A-''\<rparr>, \<lparr>header = ''b'', sequence = ''-A''\<rparr>],
          \<lparr>total_gaps = 2, final_length = 2,
             guide_tree = Some (TreeNode (- 1) (1 / 4) (Some (TreeNode 0 0 None None [0]))
                                  (Some (TreeNode 1 0 None None [1])) [0, 1])\<rparr>)"
    by code_simp
  then show ?thesis
    by (simp add: strip_gaps_def)
qed

text \<open>
  Claim C4 as amended. For every input of \<open>N \<ge> 2\<close> sequence records, \<open>alignSequences\<close>
  returns \<open>N\<close> records, and removing every \<open>'-'\<close> from the \<open>i\<close>-th output gives the \<open>i\<close>-th
  input with its own \<open>'-'\<close> characters removed, in the same order; when the \<open>i\<close>-th input
  contains no \<open>'-'\<close>, that is exactly the \<open>i\<close>-th input.
\<close>

theorem alignSequences_strip_gaps:
  assumes "2 \<le> length seqs"
  shows "\<exists>aligned this'. alignSequences this seqs = Inr (aligned, this') \<and>
     length aligned = length seqs \<and>
     (\<forall>i<length seqs.
        strip_gaps (sequence (aligned ! i)) = strip_gaps (sequence (seqs ! i)) \<and>
        (CHR ''-'' \<notin> set (sequence (seqs ! i)) \<longrightarrow>
           strip_gaps (sequence (aligned ! i)) = sequence (seqs ! i)))"
proof -
  from alignSequences_general [OF assms, of this] obtain aligned this' where
    r: "alignSequences this seqs = Inr (aligned, this')" "length aligned = length seqs"
    and g: "\<forall>i<length seqs. gapped_copy (sequence (seqs ! i)) (sequence (aligned ! i))"
    by blast
  have "strip_gaps (sequence (aligned ! i)) = strip_gaps (sequence (seqs ! i)) \<and>
        (CHR ''-'' \<notin> set (sequence (seqs ! i)) \<longrightarrow>
           strip_gaps (sequence (aligned ! i)) = sequence (seqs ! i))" if "i < length seqs" for i
  proof -
    have e: "strip_gaps (sequence (aligned ! i)) = strip_gaps (sequence (seqs ! i))"
      using g that by (simp add: strip_gaps_def gapped_copy_filter)
    have "strip_gaps s = s" if "CHR ''-'' \<notin> set s" for s
      using that unfolding strip_gaps_def by (induction s) auto
    with e show ?thesis by simp
  qed
  with r show ?thesis by blast
qed

theorem alignSequences_strip_gaps_witness:
  "2 \<le> length
     [\<lparr>header = ''a'', sequence = ''AATC''\<rparr>, \<lparr>header = ''b'', sequence = ''TCT''\<rparr>] \<and>
   CHR ''-'' \<notin> set (sequence
     ([\<lparr>header = ''a'', sequence = ''AATC''\<rparr>, \<lparr>header = ''b'', sequence = ''TCT''\<rparr>] ! 1)) \<and>
   alignSequences MSAAligner_new
     [\<lparr>header = ''a'', sequence = ''AATC''\<rparr>, \<lparr>header = ''b'', sequence = ''TCT''\<rparr>] =
     Inr ([\<lparr>header = ''a'', sequence = ''AATC''\<rparr>, \<lparr>header = ''b'', sequence = ''--TCT''\<rparr>],
          \<lparr>total_gaps = 2, final_length = 4,
             guide_tree = Some (TreeNode (- 1) (3 / 8) (Some (TreeNode 0 0 None None [0]))
                                  (Some (TreeNode 1 0 None None [1])) [0, 1])\<rparr>) \<and>
   strip_gaps ''--TCT'' = sequence
     ([\<lparr>header = ''a'', sequence = ''AATC''\<rparr>, \<lparr>header = ''b'', sequence = ''TCT''\<rparr>] ! 1)"
proof -
  have h: "2 \<le> length
      [\<lparr>header = ''a'', sequence = ''AATC''\<rparr>, \<lparr>header = ''b'', sequence = ''TCT''\<rparr>]"
    by simp
  from alignSequences_strip_gaps [OF h, of MSAAligner_new]
  show ?thesis
    unfolding alignSequences_AATC_TCT by auto
qed

subsection \<open>C5: pairwise alignment is a global alignment\<close>

text \<open>
  Claim C5. For every pair of input strings \<open>strA\<close> and \<open>strB\<close>, \<open>pairwiseAlignment\<close>
  returns (the traceback never leaves the table) two strings of equal length, and each
  output is its input with \<open>'-'\<close> characters inserted: every character of \<open>strA\<close> appears
  exactly once and in the original order in \<open>alignedA\<close>, everything else in \<open>alignedA\<close> is
  \<open>'-'\<close>, and likewise for \<open>strB\<close> and \<open>alignedB\<close>.
\<close>

theorem pairwiseAlignment_global:
  "\<exists>alignedA alignedB. pairwiseAlignment strA strB = Some (alignedA, alignedB) \<and>
     length alignedA = length alignedB \<and>
     gapped_copy strA alignedA \<and> gapped_copy strB alignedB"
proof -
  obtain al where al: "is_alignment strA strB al"
    and p: "pairwiseAlignment strA strB = Some (row1 al, row2 al)"
    using pairwiseAlignment_optimal by blast
  have "length (row1 al) = length (row2 al)"
    by (simp add: row1_def row2_def)
  moreover have "gapped_copy strA (row1 al)" "gapped_copy strB (row2 al)"
    using gapped_copy_row1 [of al] gapped_copy_row2 [of al] al
    by (simp_all add: is_alignment_def)
  ultimately show ?thesis
    using p by blast
qed

theorem pairwiseAlignment_global_witness:
  "pairwiseAlignment ''AATC'' ''TCT'' = Some (''AATC'', ''TCT-'') \<and>
   length ''AATC'' = length ''TCT-'' \<and>
   gapped_copy ''AATC'' ''AATC'' \<and> gapped_copy ''TCT'' ''TCT-''"
proof -
  have e: "pairwiseAlignment ''AATC'' ''TCT'' = Some (''AATC'', ''TCT-'')"
    by code_simp
  from pairwiseAlignment_global [of "''AATC''" "''TCT''"] show ?thesis
    unfolding e by simp
qed

subsection \<open>C6: the Needleman-Wunsch score is the optimum over all global alignments\<close>

text \<open>
  Claim C6. The score that \<open>pairwiseAlignment\<close> computes, the table entry \<open>dp[m][n]\<close> under
  match \<open>+2\<close>, mismatch \<open>-1\<close> and gap \<open>-2\<close>, equals the maximum score over the brute-force
  enumeration of all global alignments of the two strings. This holds for strings of any
  length, in particular for all strings of length at most 6, and the alignment that the
  traceback returns is a global alignment with exactly that score. For \<open>AAAA\<close> against
  \<open>TTTT\<close> the score is \<open>4 \<times> mismatch = -4\<close>, and the alignment returned is the
  all-diagonal one, without any gap.
\<close>

theorem nw_score_optimal:
  "nw_table a b ! length a ! length b = Max (set (map alignment_score (all_alignments a b)))
   \<and> (\<exists>al. is_alignment a b al \<and> pairwiseAlignment a b = Some (row1 al, row2 al) \<and>
          alignment_score al = nw_table a b ! length a ! length b)
   \<and> nw_table ''AAAA'' ''TTTT'' ! 4 ! 4 = 4 * mismatch_score
   \<and> 4 * mismatch_score = - 4
   \<and> pairwiseAlignment ''AAAA'' ''TTTT'' = Some (''AAAA'', ''TTTT'')"
proof -
  have general:
    "nw_table a b ! length a ! length b = Max (set (map alignment_score (all_alignments a b)))"
    by (simp add: nw_table_correct nw_score_max)
  have returned: "\<exists>al. is_alignment a b al \<and> pairwiseAlignment a b = Some (row1 al, row2 al) \<and>
          alignment_score al = nw_table a b ! length a ! length b"
    unfolding general by (rule pairwiseAlignment_optimal)
  have t: "nw_table ''AAAA'' ''TTTT'' ! 4 ! 4 = - 4"
    by code_simp
  have p: "pairwiseAlignment ''AAAA'' ''TTTT'' = Some (''AAAA'', ''TTTT'')"
    by code_simp
  show ?thesis
    using general returned t p by (simp add: mismatch_score_def)
qed

theorem nw_score_optimal_witness:
  "length ''ATCG'' \<le> 6 \<and> length ''ATTG'' \<le> 6 \<and>
   nw_table ''ATCG'' ''ATTG'' ! 4 ! 4 = 5 \<and>
   Max (set (map alignment_score (all_alignments ''ATCG'' ''ATTG''))) = 5"
proof -
  have t: "nw_table ''ATCG'' ''ATTG'' ! 4 ! 4 = 5"
    by code_simp
  have len: "length ''ATCG'' = 4" "length ''ATTG'' = 4"
    by simp_all
  have m: "Max (set (map alignment_score (all_alignments ''ATCG'' ''ATTG'')))
      = nw_table ''ATCG'' ''ATTG'' ! 4 ! 4"
    using nw_score_optimal [of "''ATCG''" "''ATTG''", THEN conjunct1]
    unfolding len by (rule sym)
  show ?thesis
    unfolding m t len by simp
qed

subsection \<open>C7: the distance estimator\<close>

text \<open>
  Claim C7. For every pair of strings, \<open>calculateSequenceDistance\<close> returns a value in
  \<open>[0, 1]\<close>; it returns exactly 1 when either input is empty, and otherwise it returns
  \<open>1 - matches / max_len\<close>, where \<open>matches\<close> is the number of indices below \<open>min_len\<close> at
  which the two strings agree up to case.
\<close>

theorem calculateSequenceDistance_contract:
  "0 \<le> calculateSequenceDistance seqA seqB \<and> calculateSequenceDistance seqA seqB \<le> 1 \<and>
   (seqA = [] \<or> seqB = [] \<longrightarrow> calculateSequenceDistance seqA seqB = 1) \<and>
   (seqA \<noteq> [] \<and> seqB \<noteq> [] \<longrightarrow>
      calculateSequenceDistance seqA seqB =
        1 - real (positional_matches seqA seqB) / real (max (length seqA) (length seqB)))"
  using calculateSequenceDistance_range [of seqA seqB]
    calculateSequenceDistance_empty [of seqA seqB]
    calculateSequenceDistance_nonempty [of seqA seqB]
  by blast

theorem calculateSequenceDistance_contract_witness:
  "calculateSequenceDistance [] ''A'' = 1 \<and>
   calculateSequenceDistance ''ATCG'' ''atagg'' = 2 / 5 \<and>
   positional_matches ''ATCG'' ''atagg'' = 3"
proof -
  have e: "calculateSequenceDistance ''ATCG'' ''atagg'' = 2 / 5"
    by code_simp
  have "calculateSequenceDistance [] ''A'' = 1"
    using calculateSequenceDistance_contract [of "[]" "''A''"] by simp
  moreover have "positional_matches ''ATCG'' ''atagg'' = 3"
    using calculateSequenceDistance_contract [of "''ATCG''" "''atagg''"]
    unfolding e by simp
  ultimately show ?thesis
    using e by simp
qed

subsection \<open>C8: shape of the guide tree\<close>

text \<open>
  Claim C8. For every input of \<open>N \<ge> 1\<close> sequences and every distance matrix (in particular
  the one built from the sequences), \<open>buildGuideTree\<close> returns a root: a binary tree (every
  node has either no child or two children) with exactly \<open>N\<close> leaves and exactly \<open>N - 1\<close>
  internal nodes; for \<open>N = 1\<close> it is the single leaf of sequence 0, with no merge.
\<close>

theorem buildGuideTree_shape:
  assumes "1 \<le> length seqs"
  shows "\<exists>root. buildGuideTree seqs distance_matrix = Some (Some root) \<and>
           is_binary root \<and>
           num_leaves root = length seqs \<and>
           num_internal root = length seqs - 1 \<and>
           (length seqs = 1 \<longrightarrow> root = TreeNode 0 0 None None [0])"
proof -
  from buildGuideTree_forest [OF assms, of distance_matrix]
  obtain root where b: "buildGuideTree seqs distance_matrix = Some (Some root)"
    and u: "upgma_loop distance_matrix (leaf_nodes (length seqs)) = Some [root]"
    and f: "forest (length seqs) [root]"
    by blast
  have one: "root = TreeNode 0 0 None None [0]" if "length seqs = 1"
  proof -
    have "upgma_loop distance_matrix (leaf_nodes (length seqs)) = Some (leaf_nodes (length seqs))"
      using that by (subst upgma_loop.simps) (simp add: leaf_nodes_eq)
    with u that show ?thesis by (simp add: leaf_nodes_eq)
  qed
  show ?thesis
    using b f one by (auto simp: forest_def)
qed

theorem buildGuideTree_shape_witness:
  "(\<exists>root. buildGuideTree
       [\<lparr>header = ''a'', sequence = ''AATC''\<rparr>, \<lparr>header = ''b'', sequence = ''TCT''\<rparr>,
        \<lparr>header = ''c'', sequence = ''AAT''\<rparr>]
       (calculateDistanceMatrix
         [\<lparr>header = ''a'', sequence = ''AATC''\<rparr>, \<lparr>header = ''b'', sequence = ''TCT''\<rparr>,
          \<lparr>header = ''c'', sequence = ''AAT''\<rparr>]) = Some (Some root) \<and>
     is_binary root \<and> num_leaves root = 3 \<and> num_internal root = 2) \<and>
   buildGuideTree [\<lparr>header = ''a'', sequence = ''AATC''\<rparr>]
     (calculateDistanceMatrix [\<lparr>header = ''a'', sequence = ''AATC''\<rparr>])
     = Some (Some (TreeNode 0 0 None None [0]))"
proof -
  let ?S3 = "[\<lparr>header = ''a'', sequence = ''AATC''\<rparr>, \<lparr>header = ''b'', sequence = ''TCT''\<rparr>,
              \<lparr>header = ''c'', sequence = ''AAT''\<rparr>]"
  let ?S1 = "[\<lparr>header = ''a'', sequence = ''AATC''\<rparr>]"
  have h3: "1 \<le> length ?S3" and h1: "1 \<le> length ?S1"
    by simp_all
  from buildGuideTree_shape [OF h3, of "calculateDistanceMatrix ?S3"]
    buildGuideTree_shape [OF h1, of "calculateDistanceMatrix ?S1"]
  show ?thesis
    by auto
qed

subsection \<open>C9: symmetry of the distance and of the distance matrix\<close>

text \<open>
  Claim C9. \<open>calculateSequenceDistance A B = calculateSequenceDistance B A\<close> for all
  strings, and \<open>calculateSequenceDistance A A = 0\<close> for every non-empty \<open>A\<close>. Consequently
  the matrix built by \<open>calculateDistanceMatrix\<close>, an \<open>N \<times> N\<close> table holding the pairwise
  distances off the diagonal, is symmetric with zero diagonal.
\<close>

theorem distance_symmetry:
  "calculateSequenceDistance A B = calculateSequenceDistance B A \<and>
   (A \<noteq> [] \<longrightarrow> calculateSequenceDistance A A = 0) \<and>
   length (calculateDistanceMatrix seqs) = length seqs \<and>
   (\<forall>i<length seqs. \<forall>j<length seqs.
      length (calculateDistanceMatrix seqs ! i) = length seqs \<and>
      calculateDistanceMatrix seqs ! i ! j = calculateDistanceMatrix seqs ! j ! i \<and>
      calculateDistanceMatrix seqs ! i ! i = 0 \<and>
      (i \<noteq> j \<longrightarrow> calculateDistanceMatrix seqs ! i ! j =
         calculateSequenceDistance (sequence (seqs ! i)) (sequence (seqs ! j))))"
proof -
  have dims: "length (calculateDistanceMatrix seqs) = length seqs"
    "\<forall>row\<in>set (calculateDistanceMatrix seqs). length row = length seqs"
    using calculateDistanceMatrix_inv [of seqs] by (simp_all add: dm_inv_def)
  have "length (calculateDistanceMatrix seqs ! i) = length seqs" if "i < length seqs" for i
    using dims that by simp
  then show ?thesis
    using dims(1) calculateSequenceDistance_sym [of A B] calculateSequenceDistance_self [of A]
      calculateSequenceDistance_sym
    by (simp add: calculateDistanceMatrix_nth)
qed

theorem distance_symmetry_witness:
  "''ATCG'' \<noteq> [] \<and> calculateSequenceDistance ''ATCG'' ''ATCG'' = 0 \<and>
   calculateSequenceDistance ''ATCG'' ''TT'' = calculateSequenceDistance ''TT'' ''ATCG'' \<and>
   calculateDistanceMatrix
     [\<lparr>header = ''a'', sequence = ''ATCG''\<rparr>, \<lparr>header = ''b'', sequence = ''TT''\<rparr>] ! 0 ! 1 =
   calculateDistanceMatrix
     [\<lparr>header = ''a'', sequence = ''ATCG''\<rparr>, \<lparr>header = ''b'', sequence = ''TT''\<rparr>] ! 1 ! 0 \<and>
   calculateDistanceMatrix
     [\<lparr>header = ''a'', sequence = ''ATCG''\<rparr>, \<lparr>header = ''b'', sequence = ''TT''\<rparr>] ! 0 ! 1 =
   calculateSequenceDistance ''ATCG'' ''TT''"
proof -
  let ?S = "[\<lparr>header = ''a'', sequence = ''ATCG''\<rparr>, \<lparr>header = ''b'', sequence = ''TT''\<rparr>]"
  note t = distance_symmetry [of "''ATCG''" "''TT''" ?S]
  have m: "\<forall>i<length ?S. \<forall>j<length ?S.
      length (calculateDistanceMatrix ?S ! i) = length ?S \<and>
      calculateDistanceMatrix ?S ! i ! j = calculateDistanceMatrix ?S ! j ! i \<and>
      calculateDistanceMatrix ?S ! i ! i = 0 \<and>
      (i \<noteq> j \<longrightarrow> calculateDistanceMatrix ?S ! i ! j =
         calculateSequenceDistance (sequence (?S ! i)) (sequence (?S ! j)))"
    using t by blast
  have "calculateDistanceMatrix ?S ! 0 ! 1 = calculateDistanceMatrix ?S ! 1 ! 0 \<and>
      calculateDistanceMatrix ?S ! 0 ! 1 =
        calculateSequenceDistance (sequence (?S ! 0)) (sequence (?S ! 1))"
    using m [rule_format, of 0 1] by simp
  then show ?thesis
    using t by simp
qed

subsection \<open>C10: a character outside the DNA alphabet leaves its profile column empty\<close>

text \<open>
  Claim C10. For every position of the input string that holds a character that is neither
  \<open>'-'\<close> nor one of \<open>A\<close>, \<open>T\<close>, \<open>C\<close>, \<open>G\<close> (up to case), \<open>getAlphabetIndex\<close> returns \<open>-1\<close>
  and \<open>createProfile\<close> leaves the column untouched: its four symbol frequencies and its
  gap frequency are all 0, so the column carries total mass 0 rather than 1.
\<close>

theorem createProfile_unknown_symbol:
  assumes "pos < length s" "s ! pos \<noteq> CHR ''-''"
    and "toupper (s ! pos) \<notin> {CHR ''A'', CHR ''T'', CHR ''C'', CHR ''G''}"
  shows "getAlphabetIndex (s ! pos) = - 1 \<and>
     frequencies (createProfile s) ! pos = [0, 0, 0, 0] \<and>
     gap_frequencies (createProfile s) ! pos = 0 \<and>
     column_mass (createProfile s) pos = 0"
proof -
  have i: "getAlphabetIndex (s ! pos) = - 1"
    using assms(3) getAlphabetIndex_unknown [of "s ! pos"] by blast
  have f: "frequencies (createProfile s) ! pos = [0, 0, 0, 0]"
    using assms(1) i
    by (simp add: createProfile_frequencies one_hot_def ALPHABET_SIZE_def numeral_eq_Suc)
  have g: "gap_frequencies (createProfile s) ! pos = 0"
    using assms(1,2) by (simp add: createProfile_gap_frequencies)
  show ?thesis
    using i f g by (simp add: column_mass_def)
qed

theorem createProfile_unknown_symbol_witness:
  "(1::nat) < length ''ANT'' \<and> ''ANT'' ! 1 \<noteq> CHR ''-'' \<and>
   toupper (''ANT'' ! 1) \<notin> {CHR ''A'', CHR ''T'', CHR ''C'', CHR ''G''} \<and>
   getAlphabetIndex (''ANT'' ! 1) = - 1 \<and>
   frequencies (createProfile ''ANT'') ! 1 = [0, 0, 0, 0] \<and>
   gap_frequencies (createProfile ''ANT'') ! 1 = 0 \<and>
   column_mass (createProfile ''ANT'') 1 = 0"
proof -
  have h: "(1::nat) < length ''ANT''" "''ANT'' ! 1 \<noteq> CHR ''-''"
    "toupper (''ANT'' ! 1) \<notin> {CHR ''A'', CHR ''T'', CHR ''C'', CHR ''G''}"
    by (simp_all add: toupper_def)
  from createProfile_unknown_symbol [OF h] h show ?thesis
    by blast
qed

end
